theory Spec2Isabelle
  imports Complex_Main "HOL-Library.Log_Nat" "HOL-Library.Signed_Division"
begin


section \<open>Strings and big integers\<close>

text \<open>
  JavaScript strings are modelled as \<open>string\<close>; every character the modelled code
  inspects (digits, separators, keywords of the encoder's output) is ASCII.
  A \<open>bigint\<close> is an \<open>int\<close>: \<open>/\<close> truncates towards zero (\<open>sdiv\<close>) and \<open>%\<close>
  takes the sign of the dividend (\<open>smod\<close>).
\<close>

definition is_digit :: "char \<Rightarrow> bool" where
  "is_digit c = (c \<in> set ''0123456789'')"

definition digit_char :: "nat \<Rightarrow> char" where
  "digit_char d = ''0123456789'' ! d"

definition digit_val :: "char \<Rightarrow> nat" where
  "digit_val c = of_char c - 48"

text \<open>\<open>String(n)\<close> for a non-negative integer: its decimal digits.\<close>

fun string_of_nat :: "nat \<Rightarrow> string" where
  "string_of_nat n =
     (if n < 10 then [digit_char n]
      else string_of_nat (n div 10) @ [digit_char (n mod 10)])"

declare string_of_nat.simps [simp del]

definition string_of_int :: "int \<Rightarrow> string" where
  "string_of_int i =
     (if i < 0 then CHR ''-'' # string_of_nat (nat (- i)) else string_of_nat (nat i))"

text \<open>\<open>BigInt(s)\<close> for a string of decimal digits.\<close>

definition nat_of_digits :: "string \<Rightarrow> nat" where
  "nat_of_digits s = foldl (\<lambda>a c. 10 * a + digit_val c) 0 s"

definition padStart :: "nat \<Rightarrow> char \<Rightarrow> string \<Rightarrow> string" where
  "padStart n c s = replicate (n - length s) c @ s"

fun join :: "string \<Rightarrow> string list \<Rightarrow> string" where
  "join sep [] = []"
| "join sep [s] = s"
| "join sep (s # t # ss) = s @ sep @ join sep (t # ss)"

definition startsWith :: "string \<Rightarrow> string \<Rightarrow> bool" where
  "startsWith s p = (take (length p) s = p)"

text \<open>\<open>input.match(/\d+/g)\<close>: the maximal runs of digits, left to right.\<close>

function digit_runs :: "string \<Rightarrow> string list" where
  "digit_runs [] = []"
| "digit_runs (c # cs) =
     (if is_digit c then (c # takeWhile is_digit cs) # digit_runs (dropWhile is_digit cs)
      else digit_runs cs)"
  by pat_completeness auto
termination
  by (relation "measure length") (auto simp: length_dropWhile_le le_imp_less_Suc)

section \<open>JavaScript numbers\<close>

text \<open>
  A \<open>number\<close> is an IEEE 754 binary64 value. The model keeps the finite ones as the
  rationals they denote, and every arithmetic operation rounds its exact result to the
  nearest representable value, ties to the even significand (53 bits above
  \<open>2\<^sup>-\<^sup>1\<^sup>0\<^sup>2\<^sup>2\<close>, a fixed spacing of \<open>2\<^sup>-\<^sup>1\<^sup>0\<^sup>7\<^sup>4\<close> below). \<open>NaN\<close>, the
  infinities and overflow are outside the model: coordinates, pixel sizes and progress
  fractions are finite. Comparison, \<open>min\<close> and \<open>max\<close> are exact.
\<close>

type_synonym number = rat

text \<open>Rounding to the nearest integer, ties to even.\<close>

definition round_half_even :: "rat \<Rightarrow> int" where
  "round_half_even q =
     (let f = \<lfloor>q\<rfloor>; d = q - of_int f
      in if d < 1 / 2 then f else if 1 / 2 < d then f + 1 else if even f then f else f + 1)"

text \<open>The binary exponent \<open>\<lfloor>log\<^sub>2 \<bar>q\<bar>\<rfloor>\<close> of a non-zero \<open>q\<close>, from the bit lengths of its numerator
  and denominator.\<close>

definition exponent :: "rat \<Rightarrow> int" where
  "exponent q =
     (case quotient_of \<bar>q\<bar> of
        (p, d) \<Rightarrow> let e = bitlen p - bitlen d in if 2 powi e \<le> \<bar>q\<bar> then e else e - 1)"

definition ulp :: "rat \<Rightarrow> rat" where
  "ulp q = 2 powi (max (exponent q) (- 1022) - 52)"

text \<open>The representable value nearest to \<open>q\<close>.\<close>

definition fl :: "rat \<Rightarrow> number" where
  "fl q = (if q = 0 then 0 else of_int (round_half_even (q / ulp q)) * ulp q)"

text \<open>The operators \<open>+\<close>, \<open>-\<close> and \<open>*\<close> on numbers.\<close>

definition js_add :: "number \<Rightarrow> number \<Rightarrow> number" where
  "js_add a b = fl (a + b)"

definition js_sub :: "number \<Rightarrow> number \<Rightarrow> number" where
  "js_sub a b = fl (a - b)"

definition js_mul :: "number \<Rightarrow> number \<Rightarrow> number" where
  "js_mul a b = fl (a * b)"

section \<open>Shared declarations (shared.ts)\<close>

datatype ChatbubbleExportFormat = PNG | GIF | MP4 | WEBM

text \<open>The string value of each member of the enum.\<close>

fun format_mime :: "ChatbubbleExportFormat \<Rightarrow> string" where
  "format_mime PNG = ''image/png''"
| "format_mime GIF = ''image/gif''"
| "format_mime MP4 = ''video/mp4''"
| "format_mime WEBM = ''video/webm''"

subsection \<open>ChatbubbleFFmpegTime\<close>

datatype time_error = TooLong | BadTime

record ChatbubbleFFmpegTime =
  microseconds :: int

definition MAGNITUDES :: "int list" where
  "MAGNITUDES = [1000000, 60, 60, 24]"

text \<open>
  The loop of \<open>toString\<close>: \<open>parts[j]\<close> is filled from the last index down, so each
  part is put in front of the ones already there.
\<close>

fun split_parts :: "int \<Rightarrow> int list \<Rightarrow> int list \<Rightarrow> int \<times> int list" where
  "split_parts time [] parts = (time, parts)"
| "split_parts time (magnitude # ms) parts =
     split_parts (time sdiv magnitude) ms ((time smod magnitude) # parts)"

text \<open>\<open>String(s).padStart(2, "0")\<close>, applied to every part.\<close>

definition pad2 :: "int \<Rightarrow> string" where
  "pad2 i = padStart 2 (CHR ''0'') (string_of_int i)"

text \<open>\<open>parts.pop()\<close> takes the last part (the microseconds) off the array.\<close>

definition toString :: "ChatbubbleFFmpegTime \<Rightarrow> time_error + string" where
  "toString t =
     (case split_parts (microseconds t) MAGNITUDES [] of
        (time, parts) \<Rightarrow>
          if time \<noteq> 0 then Inl TooLong
          else Inr (join '':'' (map pad2 (butlast parts)) @ ''.'' @ pad2 (last parts)))"

text \<open>\<open>MAGNITUDES[j - 1] ?? 1n\<close>: an index out of range reads \<open>undefined\<close>.\<close>

definition magnitude_at :: "int \<Rightarrow> int" where
  "magnitude_at k = (if 0 \<le> k \<and> k < int (length MAGNITUDES) then MAGNITUDES ! nat k else 1)"

fun parse_loop :: "int \<Rightarrow> string list \<Rightarrow> int \<Rightarrow> int" where
  "parse_loop us [] j = us"
| "parse_loop us (s # spans) j =
     parse_loop ((us + int (nat_of_digits s)) * magnitude_at (j - 1)) spans (j - 1)"

definition parse :: "string \<Rightarrow> time_error + ChatbubbleFFmpegTime" where
  "parse input =
     (case digit_runs input of
        [] \<Rightarrow> Inl BadTime
      | spans \<Rightarrow> Inr \<lparr>microseconds = parse_loop 0 spans (int (length MAGNITUDES) - 1)\<rparr>)"

subsection \<open>Dimensions, rectangles and normalized point lists\<close>

text \<open>
  \<open>Rectangle\<close> extends \<open>Dimensions\<close> by the offset \<open>{x, y}\<close>; the two fields are named
  \<open>rect_x\<close> and \<open>rect_y\<close> here, so that \<open>x\<close> and \<open>y\<close> stay free for variables.
\<close>

record Dimensions =
  width :: number
  height :: number

record Rectangle = Dimensions +
  rect_x :: number
  rect_y :: number

type_synonym CoordinateTuple = "number \<times> number"

record NormalizedPointList =
  normalized :: "CoordinateTuple list"

text \<open>
  The argument of \<open>inverted\<close> is \<open>{ x = false, y = false } = { x: true, y: true }\<close>:
  a call without argument inverts both axes, and a field left out of a given object
  is \<open>false\<close>.
\<close>

record invert_options =
  inv_x :: "bool option"
  inv_y :: "bool option"

definition inverted :: "NormalizedPointList \<Rightarrow> invert_options option \<Rightarrow> NormalizedPointList" where
  "inverted this arg =
     (let opts = (case arg of None \<Rightarrow> \<lparr>inv_x = Some True, inv_y = Some True\<rparr> | Some given \<Rightarrow> given);
          ix = (case inv_x opts of None \<Rightarrow> False | Some flag \<Rightarrow> flag);
          iy = (case inv_y opts of None \<Rightarrow> False | Some flag \<Rightarrow> flag)
      in \<lparr>normalized =
            map (\<lambda>(vx, vy). (if ix then js_sub 1 vx else vx, if iy then js_sub 1 vy else vy))
              (normalized this)\<rparr>)"

text \<open>The argument \<open>{x: true}\<close>.\<close>

definition x_only :: "invert_options option" where
  "x_only = Some \<lparr>inv_x = Some True, inv_y = None\<rparr>"

text \<open>The functions mapped over the points by \<open>mul\<close> and \<open>toSpace\<close>.\<close>

definition mul_point :: "Dimensions \<Rightarrow> CoordinateTuple \<Rightarrow> CoordinateTuple" where
  "mul_point dimensions = (\<lambda>(px, py). (js_mul px (width dimensions), js_mul py (height dimensions)))"

definition mul :: "NormalizedPointList \<Rightarrow> Dimensions \<Rightarrow> CoordinateTuple list" where
  "mul this dimensions = map (mul_point dimensions) (normalized this)"

definition toSpace_point :: "Rectangle \<Rightarrow> CoordinateTuple \<Rightarrow> CoordinateTuple" where
  "toSpace_point space =
     (\<lambda>(px, py). (js_add (js_mul px (width space)) (rect_x space),
                       js_add (js_mul py (height space)) (rect_y space)))"

definition toSpace :: "NormalizedPointList \<Rightarrow> Rectangle \<Rightarrow> CoordinateTuple list" where
  "toSpace this space = map (toSpace_point space) (normalized this)"

text \<open>
  Objects live in a store: a reference is an index into the list of the point lists
  allocated so far. \<open>inverted\<close> reads the receiver and allocates its result
  (\<open>new NormalizedPointList(this.normalized.map(...))\<close>).
\<close>

type_synonym heap = "NormalizedPointList list"

definition inverted_at :: "heap \<Rightarrow> nat \<Rightarrow> invert_options option \<Rightarrow> (heap \<times> nat) option" where
  "inverted_at h this arg =
     (if this < length h then Some (h @ [inverted (h ! this) arg], length h) else None)"

section \<open>The I/O strategy selector\<close>

datatype Method = Streaming | TemporaryFiles

text \<open>\<open>FFmpegJob.IO.choose\<close> (\<open>choose\<close> alone is the binomial coefficient).\<close>

definition choose_io :: "string \<Rightarrow> nat \<Rightarrow> ChatbubbleExportFormat \<Rightarrow> Method" where
  "choose_io inputMime inputBytes exportType =
     (if inputMime = format_mime GIF
         \<or> (startsWith inputMime ''video'' \<and> exportType = GIF)
         \<or> exportType = MP4
         \<or> exportType = WEBM
      then TemporaryFiles else Streaming)"


section \<open>The crop rectangle of a configuration\<close>

text \<open>
  \<open>getCroppedRectangle\<close> is overloaded on its argument: a \<open>Rectangle\<close> (\<open>"x" in space\<close>)
  places the corners with \<open>toSpace\<close>, plain \<open>Dimensions\<close> with \<open>mul\<close>. The corners
  are the state of the crop store. Destructuring \<open>[a, b]\<close> from fewer than two points
  leaves \<open>undefined\<close>, and the read \<open>a[0]\<close> of it throws.
\<close>

datatype Space = Scale Dimensions | InSpace Rectangle

datatype type_error = TypeError

definition getCroppedRectangle :: "NormalizedPointList \<Rightarrow> Space \<Rightarrow> type_error + Rectangle" where
  "getCroppedRectangle corners space =
     (case (case space of InSpace r \<Rightarrow> toSpace corners r | Scale d \<Rightarrow> mul corners d) of
        a # b # _ \<Rightarrow>
          let (xlo, xhi) = (if fst a < fst b then (fst a, fst b) else (fst b, fst a));
              w = js_sub xhi xlo;
              (ylo, yhi) = (if snd a < snd b then (snd a, snd b) else (snd b, snd a));
              h = js_sub yhi ylo
          in Inr \<lparr>width = w, height = h, rect_x = xlo, rect_y = ylo\<rparr>
      | _ \<Rightarrow> Inl TypeError)"

text \<open>Where one corner lands in the space the rectangle is asked for.\<close>

fun place :: "Space \<Rightarrow> CoordinateTuple \<Rightarrow> CoordinateTuple" where
  "place (Scale d) p = mul_point d p"
| "place (InSpace r) p = toSpace_point r p"

section \<open>Temporary files (Temporary.FileManager)\<close>

text \<open>
  The clean-up policy of a manager. The member \<open>ALL\<close> of \<open>Inlcude\<close> is written
  \<open>ALL_ENTRIES\<close>, and the fields \<open>when\<close> and \<open>include\<close> are \<open>cleanup_when\<close> and
  \<open>cleanup_include\<close>.
\<close>

datatype Occasion = ON_EXIT_OR_EXPLICIT | ONLY_EXIT | ONLY_EXPLICIT | NEVER

datatype Ascension = NONE | SELF

datatype Inlcude = ALL_FILES | ALL_ENTRIES | MANAGED_FILES

record Cleanup =
  ascension :: Ascension
  cleanup_when :: Occasion
  cleanup_include :: Inlcude

definition Cleanup_DEFAULT :: Cleanup where
  "Cleanup_DEFAULT =
     \<lparr>ascension = SELF, cleanup_when = ON_EXIT_OR_EXPLICIT, cleanup_include = MANAGED_FILES\<rparr>"

text \<open>
  A configuration is \<open>where: [basis, scope, options?]\<close> and the clean-up policy. The
  directory \<open>path.resolve(basis, scope)\<close> is kept resolved, as the getter \<open>path\<close> returns
  it; the third component, \<open>boolean | MakeDirectoryOptions | undefined\<close>, says whether
  the constructor makes the directory.
\<close>

datatype make_option = Unset | Flag bool | MakeDirectoryOptions

record Configuration =
  where_path :: string
  where_make :: make_option
  cleanup_policy :: Cleanup

datatype Status = PENDING | READY

record FileManager =
  config :: Configuration
  path :: string
  registered :: "string set"
  status :: Status
  counter :: nat

text \<open>
  The manager's state is the class's fields. What it does to the file system is
  returned as a list of effects: \<open>fsp.mkdir\<close>, \<open>fsp.rm\<close> (always recursive),
  \<open>fsp.open(path, "w")\<close> and \<open>server.listen(path)\<close>.
\<close>

datatype fs_effect = Mkdir string | Rm string | Open string | Listen string

text \<open>
  The constructor: \<open>true\<close> and \<open>undefined\<close> stand for \<open>{ recursive: true }\<close>, and any
  truthy option starts \<open>mkdir\<close>; the manager is \<open>READY\<close> once the directory is made
  (\<open>initialized\<close>), and at once when nothing is made.
\<close>

fun makes_directory :: "make_option \<Rightarrow> bool" where
  "makes_directory Unset = True"
| "makes_directory (Flag b) = b"
| "makes_directory MakeDirectoryOptions = True"

definition new_FileManager :: "Configuration \<Rightarrow> FileManager \<times> fs_effect list" where
  "new_FileManager cfg =
     (if makes_directory (where_make cfg)
      then (\<lparr>config = cfg, path = where_path cfg, registered = {}, status = PENDING, counter = 0\<rparr>,
            [Mkdir (where_path cfg)])
      else (\<lparr>config = cfg, path = where_path cfg, registered = {}, status = READY, counter = 0\<rparr>,
            []))"

definition initialized :: "FileManager \<Rightarrow> FileManager" where
  "initialized this = this\<lparr>status := READY\<rparr>"

text \<open>A directory entry, as \<open>readdir\<close> with \<open>withFileTypes\<close> returns it.\<close>

record Dirent =
  parentPath :: string
  name :: string
  isDirectory :: bool

type_synonym path_filter = "string \<Rightarrow> Dirent \<Rightarrow> bool"





text \<open>\<open>path.resolve\<close> of a directory and a name is a parameter of the model.\<close>

type_synonym resolver = "string \<Rightarrow> string \<Rightarrow> string"

fun getPathsToDelete :: "resolver \<Rightarrow> FileManager \<Rightarrow> Dirent list \<Rightarrow> path_filter \<Rightarrow> string list" where
  "getPathsToDelete resolve this [] flt = []"
| "getPathsToDelete resolve this (entry # entries) flt =
     (let p = resolve (parentPath entry) (name entry);
          rest = getPathsToDelete resolve this entries flt
      in case cleanup_include (cleanup_policy (config this)) of
           ALL_ENTRIES \<Rightarrow> (if flt p entry then p # rest else rest)
         | ALL_FILES \<Rightarrow>
             (if isDirectory entry then rest
              else if flt p entry then p # rest else rest)
         | MANAGED_FILES \<Rightarrow>
             (if isDirectory entry \<or> p \<notin> registered this then rest
              else if flt p entry then p # rest else rest))"


text \<open>
  \<open>unique\<close>: prefix, then the counter (incremented), then suffix; an empty or
  missing prefix or suffix is falsy and left out. The counter is a \<open>nat\<close>: \<open>counter++\<close>
  is exact below \<open>2\<^sup>5\<^sup>3\<close>, far beyond the calls one process can make.
\<close>

record unique_options =
  prefix_opt :: "string option"
  suffix_opt :: "string option"

fun truthy :: "string option \<Rightarrow> bool" where
  "truthy None = False"
| "truthy (Some s) = (s \<noteq> [])"

definition unique :: "resolver \<Rightarrow> FileManager \<Rightarrow> unique_options option \<Rightarrow> FileManager \<times> string" where
  "unique resolve this options =
     (let pre = (case options of None \<Rightarrow> None | Some opt \<Rightarrow> prefix_opt opt);
          suf = (case options of None \<Rightarrow> None | Some opt \<Rightarrow> suffix_opt opt);
          out = (if truthy pre then the pre else []);
          out = out @ string_of_nat (counter this);
          out = (if truthy suf then out @ the suf else out)
      in (this\<lparr>counter := counter this + 1\<rparr>, resolve (path this) out))"

definition register :: "FileManager \<Rightarrow> string \<Rightarrow> FileManager" where
  "register this p = this\<lparr>registered := insert p (registered this)\<rparr>"

definition unregister :: "FileManager \<Rightarrow> string \<Rightarrow> FileManager" where
  "unregister this p = this\<lparr>registered := registered this - {p}\<rparr>"

text \<open>
  \<open>create\<close>: the path is registered once \<open>fsp.open\<close> has succeeded (\<open>open_ok\<close>); a
  rejected \<open>open\<close> rejects \<open>create\<close> after the counter has advanced.
\<close>

datatype fs_error = OpenFailed

definition create ::
  "resolver \<Rightarrow> bool \<Rightarrow> FileManager \<Rightarrow> string option \<Rightarrow> string option
     \<Rightarrow> FileManager \<times> (fs_error + string)" where
  "create resolve open_ok this pre suf =
     (case unique resolve this (Some \<lparr>prefix_opt = pre, suffix_opt = suf\<rparr>) of
        (this', p) \<Rightarrow> if open_ok then (register this' p, Inr p) else (this', Inl OpenFailed))"

text \<open>A run of \<open>create\<close> calls whose \<open>open\<close> all succeed, and the paths returned.\<close>

fun creates ::
  "resolver \<Rightarrow> FileManager \<Rightarrow> (string option \<times> string option) list \<Rightarrow> FileManager \<times> string list" where
  "creates resolve this [] = (this, [])"
| "creates resolve this ((pre, suf) # calls) =
     (case create resolve True this pre suf of
        (this', Inr p) \<Rightarrow> (case creates resolve this' calls of (this'', ps) \<Rightarrow> (this'', p # ps))
      | (this', Inl e) \<Rightarrow> creates resolve this' calls)"

section \<open>Socket bridges (SocketPipe)\<close>

text \<open>
  The members of \<open>SocketStatus\<close> carry the prefix \<open>SOCKET_\<close>, since \<open>PENDING\<close> is also
  a \<open>Status\<close> of the manager. \<open>listening\<close> is the state of the \<open>net.Server\<close>: after
  \<open>server.close()\<close> it accepts no connection. The constructor registers nothing: the
  call \<open>provider.register(this.path)\<close> is in the connection listener.
\<close>

datatype SocketStatus = SOCKET_PENDING | SOCKET_OPEN | SOCKET_CLOSED

record SocketPipe =
  socket_path :: string
  socket_status :: SocketStatus
  listening :: bool

definition new_SocketPipe ::
  "resolver \<Rightarrow> FileManager \<Rightarrow> (FileManager \<times> SocketPipe) \<times> fs_effect list" where
  "new_SocketPipe resolve provider =
     (case unique resolve provider (Some \<lparr>prefix_opt = Some ''socket.'', suffix_opt = None\<rparr>) of
        (provider', p) \<Rightarrow>
          ((provider', \<lparr>socket_path = p, socket_status = SOCKET_PENDING, listening = True\<rparr>),
           [Listen p]))"

datatype socket_event = Connection | Finish

fun socket_step :: "FileManager \<times> SocketPipe \<Rightarrow> socket_event \<Rightarrow> FileManager \<times> SocketPipe" where
  "socket_step (provider, this) Connection =
     (if listening this
      then (register provider (socket_path this), this\<lparr>socket_status := SOCKET_OPEN\<rparr>)
      else (provider, this))"
| "socket_step (provider, this) Finish =
     (provider, this\<lparr>socket_status := SOCKET_CLOSED, listening := False\<rparr>)"

section \<open>Delegation to the encoder (native side)\<close>

subsection \<open>Failures and options\<close>

text \<open>
  A failure is its kind and the error it carries: an \<open>ExecException\<close> of the lookup, a
  native error of the process, or the pair \<open>[code, signal]\<close> of an \<open>exit\<close> or \<open>close\<close>
  event (each \<open>null\<close> or a value).
\<close>

datatype ChatbubbleFFmpegDelegationFailureKind =
  NO_BINARY_AVAILABLE | ERROR_FINDING_BINARY | BAD_INPUT | ENCODING_FAILURE | UNKNOWN_ERROR

datatype failure_detail =
  NoDetail | ExecException string | NativeError string | CodeSignal "int option" "string option"

record ChatbubbleFFmpegDelegationFailure =
  failure_type :: ChatbubbleFFmpegDelegationFailureKind
  failure_error :: failure_detail

text \<open>
  What the modelled code can throw: the \<open>RangeError\<close> of a \<open>bigint\<close> division by zero or of
  \<open>"0".repeat\<close> with a negative count, the errors of \<open>ChatbubbleFFmpegTime\<close>, a
  \<open>TypeError\<close> on reading a property of \<open>undefined\<close>, and a rejected \<open>fsp.open\<close>.
\<close>

datatype io_error = OpenRejected

datatype js_exception =
  RangeError | TimeError time_error | TypeErrorThrown type_error | IOError io_error

text \<open>A \<open>Uint8Array\<close> or \<open>Buffer\<close> is a list of bytes.\<close>

type_synonym bytes = string

text \<open>
  The options of a request. \<open>crop\<close> and \<open>quality\<close> are optional (\<open>crop?: Rectangle\<close>);
  \<open>trim\<close> is read nowhere. The fields \<open>file\<close>, \<open>target\<close> and \<open>overlay\<close> carry the prefix
  \<open>opt_\<close>.
\<close>

record file_options =
  file_name :: string
  mime :: string
  file_data :: bytes

record target_options =
  target_type :: ChatbubbleExportFormat
  crop :: "Rectangle option"
  quality :: "number option"

record overlay_options =
  transparent :: bool
  bounds :: Rectangle
  pixels :: bytes

record ChatbubbleFFmpegOptions =
  opt_file :: file_options
  opt_target :: target_options
  opt_overlay :: overlay_options

subsection \<open>Locating the binary\<close>

text \<open>
  \<open>locateBinary("ffmpeg")\<close> runs \<open>which\<close> or \<open>where\<close>; what it finds is the
  environment's: a path, nothing, or a failed command.
\<close>

datatype lookup = Located string | NotLocated | LookupFailed string

fun tryGetFfmpegPath :: "lookup \<Rightarrow> ChatbubbleFFmpegDelegationFailure + string" where
  "tryGetFfmpegPath (Located binary) = Inr binary"
| "tryGetFfmpegPath NotLocated =
     Inl \<lparr>failure_type = NO_BINARY_AVAILABLE, failure_error = NoDetail\<rparr>"
| "tryGetFfmpegPath (LookupFailed e) =
     Inl \<lparr>failure_type = ERROR_FINDING_BINARY, failure_error = ExecException e\<rparr>"

subsection \<open>Input and output of a job\<close>

text \<open>
  The fields \<open>main\<close>, \<open>bubble\<close> and \<open>out\<close> of \<open>Paths\<close> carry the suffix \<open>_path\<close>,
  and \<open>method\<close> of \<open>IO\<close> is \<open>io_method\<close>.
  \<open>streaming\<close> makes three socket bridges and passes their URLs; \<open>files\<close> makes three
  temporary files with \<open>fftemp.create\<close>, whose \<open>unique\<close> calls run in the order written.
  \<open>get\<close> (here \<open>IO_get\<close>, in its one-argument form) chooses between them.
\<close>

record Paths =
  main_path :: string
  bubble_path :: string
  out_path :: string

record IO =
  io_method :: Method
  paths :: Paths
  chunks :: "bytes list option"

definition url :: "SocketPipe \<Rightarrow> string" where
  "url this = ''unix:'' @ socket_path this"

definition streaming ::
  "resolver \<Rightarrow> FileManager \<Rightarrow> (FileManager \<times> SocketPipe list \<times> IO) \<times> fs_effect list" where
  "streaming resolve fftemp =
     (case new_SocketPipe resolve fftemp of ((t1, s_main), e1) \<Rightarrow>
      case new_SocketPipe resolve t1 of ((t2, s_bubble), e2) \<Rightarrow>
      case new_SocketPipe resolve t2 of ((t3, s_out), e3) \<Rightarrow>
        ((t3, [s_main, s_bubble, s_out],
          \<lparr>io_method = Streaming,
             paths = \<lparr>main_path = url s_main, bubble_path = url s_bubble, out_path = url s_out\<rparr>,
             chunks = Some []\<rparr>),
         e1 @ e2 @ e3))"

definition files ::
  "resolver \<Rightarrow> bool \<Rightarrow> FileManager \<Rightarrow> (FileManager \<times> (io_error + IO)) \<times> fs_effect list" where
  "files resolve open_ok fftemp =
     (case create resolve open_ok fftemp (Some ''main'') None of (t1, r_main) \<Rightarrow>
      case create resolve open_ok t1 (Some ''bubble'') None of (t2, r_bubble) \<Rightarrow>
      case create resolve open_ok t2 (Some ''out'') None of (t3, r_out) \<Rightarrow>
        (case (r_main, r_bubble, r_out) of
           (Inr m, Inr b, Inr out) \<Rightarrow>
             ((t3, Inr \<lparr>io_method = TemporaryFiles,
                       paths = \<lparr>main_path = m, bubble_path = b, out_path = out\<rparr>,
                       chunks = None\<rparr>),
              [Open m, Open b, Open out])
         | _ \<Rightarrow> ((t3, Inl OpenRejected), [])))"

definition IO_get ::
  "resolver \<Rightarrow> bool \<Rightarrow> FileManager \<Rightarrow> ChatbubbleFFmpegOptions
     \<Rightarrow> (FileManager \<times> SocketPipe list \<times> (io_error + IO)) \<times> fs_effect list" where
  "IO_get resolve open_ok fftemp options =
     (case choose_io (mime (opt_file options)) (length (file_data (opt_file options)))
             (target_type (opt_target options)) of
        Streaming \<Rightarrow>
          (case streaming resolve fftemp of
             ((t, sockets, io), effects) \<Rightarrow> ((t, sockets, Inr io), effects))
      | TemporaryFiles \<Rightarrow>
          (case files resolve open_ok fftemp of
             ((t, r), effects) \<Rightarrow> ((t, [], r), effects)))"

subsection \<open>The argument list\<close>

text \<open>
  \<open>os.platform()\<close> is a parameter, and so is the conversion of a number to a string
  inside a template literal (\<open>ns\<close>). \<open>quality\<close> is not used.
\<close>

definition outputSpecificationToFfmpegArguments ::
  "string \<Rightarrow> ChatbubbleExportFormat \<Rightarrow> string list" where
  "outputSpecificationToFfmpegArguments platform type =
     (case type of
        WEBM \<Rightarrow>
          [''-c:a'', ''libvorbis'', ''-c:v''] @ [''libvpx'']
            @ [''-f'', ''webm'', ''-auto-alt-ref'', ''0'']
            @ [''-cpu-used'', ''-5'', ''-deadline'', ''realtime'']
      | MP4 \<Rightarrow>
          [''-c:v'']
            @ (if platform = ''darwin''
               then [''hevc_videotoolbox'', ''-alpha_quality'', ''1'', ''-vtag'', ''hvc1'', ''-c:a'',
                     ''aac'', ''-pix_fmt'', ''yuva444p'', ''-profile:v'', ''main'', ''-realtime'', ''true'']
               else [])
            @ [''-f'', ''mp4'', ''-movflags'', ''+faststart'']
      | GIF \<Rightarrow> [''-f'', ''gif'']
      | PNG \<Rightarrow> [''-f'', ''apng''])"

text \<open>The first stage of the filter graph, built from the crop as it is.\<close>

definition crop_filter :: "(number \<Rightarrow> string) \<Rightarrow> Rectangle \<Rightarrow> string" where
  "crop_filter ns c =
     ''[0]crop='' @ ns (width c) @ '':'' @ ns (height c) @ '':'' @ ns (rect_x c) @ '':''
       @ ns (rect_y c) @ '':exact=1[cropped];''"

text \<open>
  \<open>buildArguments\<close>, statement by statement. The source reads \<open>crop.width\<close> without a
  check, which throws when \<open>crop\<close> is left out; no other property of the crop is looked
  at.
\<close>

definition buildArguments ::
  "(number \<Rightarrow> string) \<Rightarrow> string \<Rightarrow> IO \<Rightarrow> ChatbubbleFFmpegOptions \<Rightarrow> type_error + string list" where
  "buildArguments ns platform io options =
     (let type = target_type (opt_target options);
          img2vid = startsWith (mime (opt_file options)) ''image'' \<and> startsWith (format_mime type) ''video'';
          args = [''-progress'', ''-'', ''-nostats''];
          args = args @ [''-y''];
          args = (if img2vid then args @ [''-loop'', ''1''] else args);
          args = args @ [''-i'', main_path (paths io)];
          args = args @ [''-f'', ''rawvideo'', ''-pix_fmt'', ''rgba'', ''-s'',
                         ns (width (bounds (opt_overlay options))) @ ''x''
                           @ ns (height (bounds (opt_overlay options))),
                         ''-i'', bubble_path (paths io)]
      in case crop (opt_target options) of
           None \<Rightarrow> Inl TypeError
         | Some c \<Rightarrow>
             let flt = crop_filter ns c;
                 last = ''cropped'';
                 (flt, last) =
                   (if transparent (opt_overlay options)
                    then (flt @ ''[1]alphaextract[trans];['' @ last @ ''][trans]alphamerge[overlaid];'',
                          ''overlaid'')
                    else (flt @ ''['' @ last @ ''][1]overlay='' @ ns (rect_x (bounds (opt_overlay options)))
                            @ '':'' @ ns (rect_y (bounds (opt_overlay options))) @ ''[overlaid];'',
                          ''overlaid''));
                 (flt, last) =
                   (if type = GIF
                    then (flt @ ''['' @ last
                            @ '']split=[a][b];[a]palettegen[pal];[b][pal]paletteuse=dither=sierra2_4a[paletted];'',
                          ''paletted'')
                    else (flt, last));
                 args = args @ [''-filter_complex'', flt];
                 args = args @ [''-map'', ''['' @ last @ '']''];
                 args = args @ [''-map'', ''0:a?''];
                 args = args @ outputSpecificationToFfmpegArguments platform type;
                 args = (if img2vid then args @ [''-t'', ''60''] else args);
                 args = args @ [out_path (paths io)]
             in Inr args)"

subsection \<open>Progress arithmetic\<close>


text \<open>
  \<open>fixedPrecisionBigIntDivide\<close>: \<open>"0".repeat(pre)\<close> throws for a negative count.
\<close>

fun repeat_zero :: "int \<Rightarrow> js_exception + string" where
  "repeat_zero count = (if count < 0 then Inl RangeError else Inr (replicate (nat count) (CHR ''0'')))"

definition fixedPrecisionBigIntDivide :: "int \<Rightarrow> int \<Rightarrow> nat \<Rightarrow> js_exception + string" where
  "fixedPrecisionBigIntDivide numerator denominator precision =
     (let shift = 10 ^ precision in
      if denominator = 0 then Inl RangeError
      else
        let int_part = numerator sdiv denominator;
            rem = numerator smod denominator;
            ups = rem * shift;
            dec = string_of_int (ups sdiv denominator);
            pre = int precision - int (length dec)
        in if rem \<noteq> 0
           then (case repeat_zero pre of
                   Inl e \<Rightarrow> Inl e
                 | Inr zeros \<Rightarrow> Inr (string_of_int int_part @ ''.'' @ zeros @ dec))
           else Inr (string_of_int int_part))"

text \<open>
  \<open>Number(s)\<close> on the strings \<open>fixedPrecisionBigIntDivide\<close> returns for a numerator that
  is not negative and a positive denominator, the decimal literals \<open>d+\<close> and \<open>d+.d+\<close>:
  the nearest number to the value written. On every other string the model answers
  \<open>NaN\<close>. \<open>clamp\<close> is \<open>Math.min(hi, Math.max(lo, value))\<close>, which keeps a \<open>NaN\<close>.
\<close>

datatype js_number = Num number | NaN

definition Number :: "string \<Rightarrow> js_number" where
  "Number s =
     (let whole = takeWhile is_digit s; rest = dropWhile is_digit s in
      if whole = [] then NaN
      else if rest = [] then Num (fl (of_nat (nat_of_digits whole)))
      else if hd rest = CHR ''.'' \<and> tl rest \<noteq> [] \<and> list_all is_digit (tl rest)
        then Num (fl (of_nat (nat_of_digits whole)
                      + of_nat (nat_of_digits (tl rest)) / 10 ^ length (tl rest)))
      else NaN)"

fun clamp :: "js_number \<Rightarrow> number \<Rightarrow> number \<Rightarrow> js_number" where
  "clamp (Num v) lo hi = Num (min hi (max lo v))"
| "clamp NaN lo hi = NaN"

subsection \<open>Reading the encoder's output\<close>

text \<open>
  The two regular expressions, matched at the leftmost position as \<open>match\<close> and
  \<open>exec\<close> do: \<open>/out_time_us=(\\d+)/\<close> and \<open>/Duration:\\s*([:.\\d]+)/\<close>, each returning its
  group. The encoder's output is ASCII, so \<open>\\s\<close> is taken over the ASCII white space.
\<close>

fun match_out_time_us :: "string \<Rightarrow> string option" where
  "match_out_time_us [] = None"
| "match_out_time_us (c # cs) =
     (if startsWith (c # cs) ''out_time_us='' \<and> takeWhile is_digit (drop 12 (c # cs)) \<noteq> []
      then Some (takeWhile is_digit (drop 12 (c # cs)))
      else match_out_time_us cs)"

definition is_space :: "char \<Rightarrow> bool" where
  "is_space c = (c \<in> set [CHR '' '', CHR 0x09, CHR 0x0A, CHR 0x0B, CHR 0x0C, CHR 0x0D])"

definition is_time_char :: "char \<Rightarrow> bool" where
  "is_time_char c = (c = CHR '':'' \<or> c = CHR ''.'' \<or> is_digit c)"

fun match_duration :: "string \<Rightarrow> string option" where
  "match_duration [] = None"
| "match_duration (c # cs) =
     (if startsWith (c # cs) ''Duration:''
         \<and> takeWhile is_time_char (dropWhile is_space (drop 9 (c # cs))) \<noteq> []
      then Some (takeWhile is_time_char (dropWhile is_space (drop 9 (c # cs))))
      else match_duration cs)"

fun string_includes :: "string \<Rightarrow> string \<Rightarrow> bool" where
  "string_includes [] sub = (sub = [])"
| "string_includes (c # cs) sub = (startsWith (c # cs) sub \<or> string_includes cs sub)"

subsection \<open>The job\<close>

text \<open>
  The state of a job: its fields and the variables its listeners close over.
  \<open>aborted\<close> is \<open>life.signal.aborted\<close>, \<open>alive\<close> says whether the child process still runs,
  \<open>resolved\<close> whether \<open>waiting\<close> has been resolved. The constructor spawns the process
  with \<open>signal: this.life.signal\<close> and \<open>killSignal: "SIGKILL"\<close>.
\<close>

record FFmpegJob =
  job_io :: IO
  binary :: string
  spawn_args :: "string list"
  killSignal :: string
  aborted :: bool
  alive :: bool
  resolved :: bool
  job_progress :: js_number
  foundMainLength :: "ChatbubbleFFmpegTime option"
  foundMain :: bool
  lastChunkPortion :: string

datatype process_effect = Spawn string "string list" string | Kill string

definition new_FFmpegJob :: "string \<Rightarrow> IO \<Rightarrow> string list \<Rightarrow> FFmpegJob \<times> process_effect list" where
  "new_FFmpegJob bin io args =
     (\<lparr>job_io = io, binary = bin, spawn_args = args, killSignal = ''SIGKILL'', aborted = False,
        alive = True, resolved = False, job_progress = Num 0, foundMainLength = None,
        foundMain = False, lastChunkPortion = []\<rparr>,
      [Spawn bin args ''SIGKILL''])"

text \<open>
  What the child process and the output socket send to the listeners: the events
  \<open>error\<close>, \<open>exit\<close> and \<open>close\<close> of the process, \<open>data\<close> on its \<open>stdout\<close> and \<open>stderr\<close>,
  and a chunk written to the output bridge. The job answers with its own events.
\<close>

datatype process_event =
    ProcError string
  | ProcExit "int option" "string option"
  | ProcClose "int option" "string option"
  | Stdout string
  | Stderr string
  | OutputChunk bytes

datatype job_event =
    Progress js_number
  | JobFailure ChatbubbleFFmpegDelegationFailure
  | Success bytes

text \<open>
  One listener call gives the job's next state, the events it emits, and the exception
  it throws, if any. A thrown exception ends that call only.
\<close>

record handled =
  job_after :: FFmpegJob
  emitted :: "job_event list"
  thrown :: "js_exception option"

text \<open>
  \<open>read\<close>: the output file (\<open>out_file\<close>, \<open>None\<close> when \<open>readFile\<close> rejects) or the chunks
  received. \<open>success\<close> is emitted by the continuation of \<open>waiting\<close>, once.
\<close>

definition read_output :: "FFmpegJob \<Rightarrow> bytes option \<Rightarrow> bytes option" where
  "read_output this out_file =
     (case io_method (job_io this) of
        TemporaryFiles \<Rightarrow> out_file
      | Streaming \<Rightarrow> (case chunks (job_io this) of None \<Rightarrow> None | Some cs \<Rightarrow> Some (concat cs)))"

definition on_error :: "FFmpegJob \<Rightarrow> string \<Rightarrow> handled" where
  "on_error this e =
     \<lparr>job_after = this,
        emitted = [JobFailure \<lparr>failure_type = UNKNOWN_ERROR, failure_error = NativeError e\<rparr>],
        thrown = None\<rparr>"

definition on_exit :: "FFmpegJob \<Rightarrow> int option \<Rightarrow> string option \<Rightarrow> handled" where
  "on_exit this code signal =
     \<lparr>job_after = this\<lparr>alive := False\<rparr>,
        emitted = (if code \<noteq> Some 0
                   then [JobFailure \<lparr>failure_type = UNKNOWN_ERROR, failure_error = CodeSignal code signal\<rparr>]
                   else []),
        thrown = None\<rparr>"

definition on_close :: "bytes option \<Rightarrow> FFmpegJob \<Rightarrow> int option \<Rightarrow> string option \<Rightarrow> handled" where
  "on_close out_file this code signal =
     (if code = Some 0
      then \<lparr>job_after = this\<lparr>resolved := True\<rparr>,
             emitted = (if resolved this then []
                        else case read_output this out_file of
                               None \<Rightarrow> []
                             | Some data \<Rightarrow> [Success data]),
             thrown = None\<rparr>
      else \<lparr>job_after = this,
             emitted = [JobFailure \<lparr>failure_type = UNKNOWN_ERROR, failure_error = CodeSignal code signal\<rparr>],
             thrown = None\<rparr>)"

definition on_stdout :: "FFmpegJob \<Rightarrow> string \<Rightarrow> handled" where
  "on_stdout this chunk =
     (case foundMainLength this of
        None \<Rightarrow> \<lparr>job_after = this, emitted = [], thrown = None\<rparr>
      | Some len \<Rightarrow>
          (case match_out_time_us chunk of
             None \<Rightarrow> \<lparr>job_after = this, emitted = [], thrown = None\<rparr>
           | Some micros \<Rightarrow>
               (case fixedPrecisionBigIntDivide (int (nat_of_digits micros)) (microseconds len) 5 of
                  Inl e \<Rightarrow> \<lparr>job_after = this, emitted = [], thrown = Some e\<rparr>
                | Inr ratio \<Rightarrow>
                    let progress = clamp (Number ratio) 0 1
                    in \<lparr>job_after = this\<lparr>job_progress := progress\<rparr>,
                         emitted = [Progress progress], thrown = None\<rparr>)))"

definition slice_last :: "nat \<Rightarrow> string \<Rightarrow> string" where
  "slice_last n s = drop (length s - n) s"

definition on_stderr :: "FFmpegJob \<Rightarrow> string \<Rightarrow> handled" where
  "on_stderr this chunk =
     (let string = lastChunkPortion this @ chunk;
          this = this\<lparr>lastChunkPortion := slice_last 25 string\<rparr>
      in case foundMainLength this of
           Some len \<Rightarrow> \<lparr>job_after = this, emitted = [], thrown = None\<rparr>
         | None \<Rightarrow>
             let this = (if \<not> foundMain this \<and> string_includes string ''Input #0''
                         then this\<lparr>foundMain := True\<rparr> else this)
             in case match_duration string of
                  None \<Rightarrow> \<lparr>job_after = this, emitted = [], thrown = None\<rparr>
                | Some time \<Rightarrow>
                    (case parse time of
                       Inl e \<Rightarrow> \<lparr>job_after = this, emitted = [], thrown = Some (TimeError e)\<rparr>
                     | Inr len \<Rightarrow>
                         \<lparr>job_after = this\<lparr>foundMainLength := Some len\<rparr>, emitted = [],
                            thrown = None\<rparr>))"

definition on_output_chunk :: "FFmpegJob \<Rightarrow> bytes \<Rightarrow> handled" where
  "on_output_chunk this chunk =
     \<lparr>job_after =
          this\<lparr>job_io := (job_io this)\<lparr>chunks := map_option (\<lambda>cs. cs @ [chunk]) (chunks (job_io this))\<rparr>\<rparr>,
        emitted = [], thrown = None\<rparr>"

fun handle :: "bytes option \<Rightarrow> FFmpegJob \<Rightarrow> process_event \<Rightarrow> handled" where
  "handle out_file this (ProcError e) = on_error this e"
| "handle out_file this (ProcExit code signal) = on_exit this code signal"
| "handle out_file this (ProcClose code signal) = on_close out_file this code signal"
| "handle out_file this (Stdout chunk) = on_stdout this chunk"
| "handle out_file this (Stderr chunk) = on_stderr this chunk"
| "handle out_file this (OutputChunk chunk) = on_output_chunk this chunk"

text \<open>The listeners run on a sequence of events; the emitted events are collected in order.\<close>

fun deliver :: "bytes option \<Rightarrow> FFmpegJob \<Rightarrow> process_event list \<Rightarrow> FFmpegJob \<times> job_event list" where
  "deliver out_file this [] = (this, [])"
| "deliver out_file this (e # es) =
     (case deliver out_file (job_after (handle out_file this e)) es of
        (this', later) \<Rightarrow> (this', emitted (handle out_file this e) @ later))"

text \<open>
  \<open>life.abort()\<close>. The repository passes the signal and the kill signal to \<open>spawn\<close>; what
  an abort does to the child is Node's: the first abort signals a process that has not
  yet reported its exit with the kill signal and emits \<open>error\<close> with an \<open>AbortError\<close> on
  it, at once. What the process reports afterwards (\<open>exit\<close>, \<open>close\<close>) is not decided here:
  it arrives as later events. A second abort does nothing.
\<close>

definition abort :: "FFmpegJob \<Rightarrow> FFmpegJob \<times> process_event list \<times> process_effect list" where
  "abort this =
     (if aborted this then (this, [], [])
      else if alive this
        then (this\<lparr>aborted := True\<rparr>, [ProcError ''AbortError''], [Kill (killSignal this)])
      else (this\<lparr>aborted := True\<rparr>, [], []))"

text \<open>
  The module's state: \<open>fftemp\<close>, the variables \<open>job\<close> and \<open>err\<close>, and the bridges made.
  The environment collects what the host decides.
\<close>

record native =
  fftemp :: FileManager
  job :: "FFmpegJob option"
  err :: "ChatbubbleFFmpegDelegationFailure option"
  sockets :: "SocketPipe list"

record environment =
  resolve_path :: resolver
  number_string :: "number \<Rightarrow> string"
  platform :: string
  located :: lookup
  open_ok :: bool
  out_file :: "bytes option"

text \<open>
  \<open>job?.life.abort()\<close>, the first statement of \<open>ffmpeg\<close> and the body of \<open>cancelJob\<close>: the
  job the variable holds is aborted, and the listeners of that job run on the \<open>error\<close>
  event of the abort. The result is the state, the events that job emits, and the signal
  sent.
\<close>

definition abort_current ::
  "environment \<Rightarrow> native \<Rightarrow> native \<times> job_event list \<times> process_effect list" where
  "abort_current env st =
     (case job st of
        None \<Rightarrow> (st, [], [])
      | Some previous \<Rightarrow>
          (case abort previous of
             (previous', events, kills) \<Rightarrow>
               (case deliver (out_file env) previous' events of
                  (previous'', out) \<Rightarrow> (st\<lparr>job := Some previous''\<rparr>, out, kills))))"

text \<open>\<open>FFmpegJob.for\<close> returns a job or a failure, or throws.\<close>

datatype start_result = Started FFmpegJob | Rejected ChatbubbleFFmpegDelegationFailure | Threw js_exception

definition FFmpegJob_for ::
  "environment \<Rightarrow> FileManager \<Rightarrow> ChatbubbleFFmpegOptions
     \<Rightarrow> (FileManager \<times> SocketPipe list \<times> start_result) \<times> fs_effect list \<times> process_effect list" where
  "FFmpegJob_for env temp options =
     (case tryGetFfmpegPath (located env) of
        Inl e \<Rightarrow> ((temp, [], Rejected e), [], [])
      | Inr bin \<Rightarrow>
          (case IO_get (resolve_path env) (open_ok env) temp options of
             ((temp', socks, Inl e), effects) \<Rightarrow> ((temp', socks, Threw (IOError e)), effects, [])
           | ((temp', socks, Inr io), effects) \<Rightarrow>
               (case buildArguments (number_string env) (platform env) io options of
                  Inl e \<Rightarrow> ((temp', socks, Threw (TypeErrorThrown e)), effects, [])
                | Inr args \<Rightarrow>
                    (case new_FFmpegJob bin io args of
                       (j, spawned) \<Rightarrow> ((temp', socks, Started j), effects, spawned)))))"

text \<open>
  \<open>ffmpeg\<close> is asynchronous, in two steps. \<open>ffmpeg_begin\<close> is what runs at the call: the
  abort of the job the variable holds. The function then awaits \<open>FFmpegJob.for\<close>, and
  other calls may run meanwhile. \<open>ffmpeg_resume\<close> is what runs when \<open>FFmpegJob.for\<close> has
  settled, on the state as it is by then: the assignment \<open>[job, err] = ...\<close> (not reached
  when \<open>FFmpegJob.for\<close> throws) and the promise on the new job. \<open>abort_effects\<close> are the
  signals sent by the first step.
\<close>

record ffmpeg_run =
  state_after :: native
  superseded_events :: "job_event list"
  started :: start_result
  fs_effects :: "fs_effect list"
  process_effects :: "process_effect list"
  abort_effects :: "process_effect list"

definition ffmpeg_begin ::
  "environment \<Rightarrow> native \<Rightarrow> native \<times> job_event list \<times> process_effect list" where
  "ffmpeg_begin env st = abort_current env st"

definition ffmpeg_resume :: "environment \<Rightarrow> native \<Rightarrow> ChatbubbleFFmpegOptions \<Rightarrow> ffmpeg_run" where
  "ffmpeg_resume env st options =
     (case FFmpegJob_for env (fftemp st) options of
        ((temp', socks, result), effects, spawned) \<Rightarrow>
          \<lparr>state_after =
               (case result of
                  Started j \<Rightarrow> st\<lparr>fftemp := temp', sockets := sockets st @ socks, job := Some j, err := None\<rparr>
                | Rejected e \<Rightarrow> st\<lparr>fftemp := temp', sockets := sockets st @ socks, job := None, err := Some e\<rparr>
                | Threw e \<Rightarrow> st\<lparr>fftemp := temp', sockets := sockets st @ socks\<rparr>),
             superseded_events = [], started = result, fs_effects = effects,
             process_effects = spawned, abort_effects = []\<rparr>)"

text \<open>
  A call of \<open>ffmpeg\<close> that no other call overlaps: both steps, one after the other. The
  events the superseded job emits on its abort are returned with the result.
\<close>

definition ffmpeg :: "environment \<Rightarrow> native \<Rightarrow> ChatbubbleFFmpegOptions \<Rightarrow> ffmpeg_run" where
  "ffmpeg env st options =
     (case ffmpeg_begin env st of
        (st1, out, kills) \<Rightarrow>
          (ffmpeg_resume env st1 options)\<lparr>superseded_events := out, abort_effects := kills\<rparr>)"

definition cancelJob ::
  "environment \<Rightarrow> native \<Rightarrow> native \<times> job_event list \<times> process_effect list" where
  "cancelJob env st = abort_current env st"

section \<open>Notions used to state the properties\<close>


text \<open>The file name \<open>unique\<close> builds when the counter is \<open>k\<close>.\<close>

definition unique_name :: "string option \<Rightarrow> string option \<Rightarrow> nat \<Rightarrow> string" where
  "unique_name pre suf k =
     (if truthy pre then the pre else []) @ string_of_nat k @ (if truthy suf then the suf else [])"

text \<open>The fractions of the \<open>progress\<close> events among some events, and the elapsed
  microseconds read from the \<open>stdout\<close> chunks among some process events.\<close>

fun progress_values :: "job_event list \<Rightarrow> js_number list" where
  "progress_values [] = []"
| "progress_values (Progress v # es) = v # progress_values es"
| "progress_values (e # es) = progress_values es"

fun out_time_readings :: "process_event list \<Rightarrow> nat list" where
  "out_time_readings [] = []"
| "out_time_readings (Stdout chunk # es) =
     (case match_out_time_us chunk of
        None \<Rightarrow> out_time_readings es
      | Some micros \<Rightarrow> nat_of_digits micros # out_time_readings es)"
| "out_time_readings (e # es) = out_time_readings es"

text \<open>
  The promise \<open>ffmpeg\<close> returns listens to \<open>success\<close> and \<open>failure\<close> of its job, and the
  first of them settles it. \<open>abort_failure\<close> is the failure the \<open>error\<close> listener emits for
  the \<open>AbortError\<close> of an abort, \<open>exit_failure\<close> the one the \<open>exit\<close> and \<open>close\<close> listeners
  emit for a code and signal.
\<close>

fun settlement :: "job_event list \<Rightarrow> job_event option" where
  "settlement [] = None"
| "settlement (Progress v # es) = settlement es"
| "settlement (e # es) = Some e"

definition abort_failure :: job_event where
  "abort_failure =
     JobFailure \<lparr>failure_type = UNKNOWN_ERROR, failure_error = NativeError ''AbortError''\<rparr>"

definition exit_failure :: "int option \<Rightarrow> string option \<Rightarrow> job_event" where
  "exit_failure code signal =
     JobFailure \<lparr>failure_type = UNKNOWN_ERROR, failure_error = CodeSignal code signal\<rparr>"


text \<open>
  The fraction emitted for \<open>u\<close> elapsed microseconds of a duration of \<open>d\<close>: the quotient
  to five decimal places by integer division, rounded to a number and clamped. A
  fraction is in the unit interval when it is a number between 0 and 1, and \<open>js_le\<close>
  is \<open>\<le>\<close> on numbers (\<open>NaN\<close> compares with nothing).
\<close>

definition fraction :: "int \<Rightarrow> nat \<Rightarrow> number" where
  "fraction d u = min 1 (max 0 (fl (of_int (int u * 100000 div d) / 100000)))"

fun in_unit :: "js_number \<Rightarrow> bool" where
  "in_unit (Num q) = (0 \<le> q \<and> q \<le> 1)"
| "in_unit NaN = False"

fun js_le :: "js_number \<Rightarrow> js_number \<Rightarrow> bool" where
  "js_le (Num a) (Num b) = (a \<le> b)"
| "js_le v w = False"

text \<open>
  A number is within reach when its magnitude is at most \<open>2\<^sup>5\<^sup>0\<^sup>0\<close>. Products, sums and
  differences of such numbers stay far below the largest binary64 value, so no
  operation on them overflows to an infinity, and \<open>fl\<close> is the rounding the source
  performs. \<open>space_numbers\<close> are the numbers of the argument of \<open>getCroppedRectangle\<close>.
\<close>

definition within_reach :: "number \<Rightarrow> bool" where
  "within_reach q \<longleftrightarrow> \<bar>q\<bar> \<le> 2 ^ 500"

fun space_numbers :: "Space \<Rightarrow> number list" where
  "space_numbers (Scale d) = [width d, height d]"
| "space_numbers (InSpace r) = [width r, height r, rect_x r, rect_y r]"

section \<open>Concrete inputs\<close>

text \<open>\<open>path.resolve\<close> of an absolute directory and a plain file name, on POSIX.\<close>

definition posix_join :: resolver where
  "posix_join dir file = dir @ ''/'' @ file"

text \<open>A configuration with the default policy, as \<open>prepare\<close> fills it in.\<close>

definition tmp_config :: Configuration where
  "tmp_config = \<lparr>where_path = ''/tmp/vencord'', where_make = Unset, cleanup_policy = Cleanup_DEFAULT\<rparr>"

text \<open>
  The conversion of a number to a string on integers below \<open>10\<^sup>2\<^sup>1\<close> in magnitude, the
  values the renderer sends (it truncates the rectangles with \<open>Math.trunc\<close>).
\<close>

definition integer_string :: "number \<Rightarrow> string" where
  "integer_string q = string_of_int \<lfloor>q\<rfloor>"

definition sample_options :: "Rectangle \<Rightarrow> ChatbubbleFFmpegOptions" where
  "sample_options c =
     \<lparr>opt_file = \<lparr>file_name = ''clip.mp4'', mime = ''video/mp4'', file_data = []\<rparr>,
      opt_target = \<lparr>target_type = GIF, crop = Some c, quality = None\<rparr>,
      opt_overlay = \<lparr>transparent = False,
                 bounds = \<lparr>width = 640, height = 480, rect_x = 0, rect_y = 0\<rparr>, pixels = []\<rparr>\<rparr>"

definition sample_io :: IO where
  "sample_io = \<lparr>io_method = TemporaryFiles,
     paths = \<lparr>main_path = ''/tmp/vencord/main0'', bubble_path = ''/tmp/vencord/bubble1'',
               out_path = ''/tmp/vencord/out2''\<rparr>, chunks = None\<rparr>"

definition sample_env :: environment where
  "sample_env = \<lparr>resolve_path = posix_join, number_string = integer_string, platform = ''linux'',
     located = Located ''/usr/bin/ffmpeg'', open_ok = True, out_file = Some ''GIF89a''\<rparr>"

definition sample_native :: native where
  "sample_native = \<lparr>fftemp = initialized (fst (new_FileManager tmp_config)), job = None, err = None, sockets = []\<rparr>"
section \<open>Properties\<close>

subsection \<open>Digits\<close>

lemma digit_cases:
  assumes "d < (10::nat)"
  shows "d = 0 \<or> d = 1 \<or> d = 2 \<or> d = 3 \<or> d = 4 \<or> d = 5 \<or> d = 6 \<or> d = 7 \<or> d = 8 \<or> d = 9"
  using assms by arith

lemma is_digit_digit_char: "d < 10 \<Longrightarrow> is_digit (digit_char d)"
  using digit_cases [of d] by (auto simp: is_digit_def digit_char_def)

lemma digit_val_digit_char: "d < 10 \<Longrightarrow> digit_val (digit_char d) = d"
  using digit_cases [of d] by (auto simp: digit_val_def digit_char_def)

lemma string_of_nat_digits: "\<forall>c \<in> set (string_of_nat n). is_digit c"
proof (induction n rule: string_of_nat.induct)
  case (1 n)
  show ?case
  proof (cases "n < 10")
    case True
    then show ?thesis
      by (subst string_of_nat.simps) (simp add: is_digit_digit_char)
  next
    case False
    with "1" show ?thesis
      by (subst string_of_nat.simps) (simp add: is_digit_digit_char)
  qed
qed

lemma string_of_nat_nonempty: "string_of_nat n \<noteq> []"
  by (subst string_of_nat.simps) simp

lemma nat_of_digits_snoc: "nat_of_digits (s @ [c]) = 10 * nat_of_digits s + digit_val c"
  by (simp add: nat_of_digits_def)

lemma nat_of_digits_string_of_nat: "nat_of_digits (string_of_nat n) = n"
proof (induction n rule: string_of_nat.induct)
  case (1 n)
  show ?case
  proof (cases "n < 10")
    case True
    then show ?thesis
      by (subst string_of_nat.simps) (simp add: nat_of_digits_def digit_val_digit_char)
  next
    case False
    with "1" have "nat_of_digits (string_of_nat (n div 10)) = n div 10"
      by simp
    with False show ?thesis
      by (subst string_of_nat.simps) (simp add: nat_of_digits_snoc digit_val_digit_char)
  qed
qed

lemma nat_of_digits_zeros: "nat_of_digits (replicate k (CHR ''0'') @ s) = nat_of_digits s"
proof -
  have "foldl (\<lambda>a c. 10 * a + digit_val c) 0 (replicate k (CHR ''0'')) = 0"
    by (induction k) (simp_all add: digit_val_def)
  then show ?thesis
    by (simp add: nat_of_digits_def)
qed

lemma nat_of_digits_padStart:
  "nat_of_digits (padStart k (CHR ''0'') (string_of_nat n)) = n"
  by (simp add: padStart_def nat_of_digits_zeros nat_of_digits_string_of_nat)

lemma padStart_digits:
  "\<forall>c \<in> set (padStart k (CHR ''0'') (string_of_nat n)). is_digit c"
proof -
  have "is_digit (CHR ''0'')"
    by (simp add: is_digit_def)
  with string_of_nat_digits [of n] show ?thesis
    by (auto simp: padStart_def)
qed

lemma padStart_nonempty: "padStart k c (string_of_nat n) \<noteq> []"
  by (simp add: padStart_def string_of_nat_nonempty)

subsection \<open>Digit runs\<close>

lemma digit_runs_all:
  assumes "ds \<noteq> []" and "\<forall>c \<in> set ds. is_digit c"
  shows "digit_runs ds = [ds]"
proof (cases ds)
  case Nil
  with assms show ?thesis by simp
next
  case (Cons c cs)
  with assms have "is_digit c" and all: "\<forall>x \<in> set cs. is_digit x"
    by simp_all
  from all have "takeWhile is_digit cs = cs" "dropWhile is_digit cs = []"
    by simp_all
  with Cons \<open>is_digit c\<close> show ?thesis
    by (simp only: digit_runs.simps if_True)
qed

lemma digit_runs_sep:
  assumes "ds \<noteq> []" and "\<forall>c \<in> set ds. is_digit c" and "\<not> is_digit sep"
  shows "digit_runs (ds @ sep # rest) = ds # digit_runs rest"
proof (cases ds)
  case Nil
  with assms show ?thesis by simp
next
  case (Cons c cs)
  with assms have c: "is_digit c" and all: "\<forall>x \<in> set cs. is_digit x"
    by simp_all
  from all assms(3) have tw: "takeWhile is_digit (cs @ sep # rest) = cs"
    by (simp add: takeWhile_append2)
  from all assms(3) have dw: "dropWhile is_digit (cs @ sep # rest) = sep # rest"
    by (simp add: dropWhile_append2)
  have "digit_runs (ds @ sep # rest) = (c # cs) # digit_runs (sep # rest)"
    unfolding Cons append_Cons using c by (simp only: digit_runs.simps if_True tw dw)
  also have "digit_runs (sep # rest) = digit_runs rest"
    using assms(3) by (simp only: digit_runs.simps if_False)
  finally show ?thesis using Cons by simp
qed

subsection \<open>Formatting and parsing a time\<close>

lemma sdiv_nonneg: "0 \<le> a \<Longrightarrow> 0 < b \<Longrightarrow> (a::int) sdiv b = a div b"
  by (simp add: signed_divide_int_def sgn_if)

lemma smod_nonneg: "0 \<le> a \<Longrightarrow> 0 < b \<Longrightarrow> (a::int) smod b = a mod b"
  by (cases "a = 0") (simp_all add: smod_int_alt_def sgn_if)

lemma split_parts_nonneg:
  assumes "0 \<le> t"
  shows "split_parts t MAGNITUDES [] =
           (t div 1000000 div 60 div 60 div 24,
            [t div 1000000 div 60 div 60 mod 24, t div 1000000 div 60 mod 60,
             t div 1000000 mod 60, t mod 1000000])"
proof -
  from assms have a: "0 \<le> t div 1000000" by (simp add: pos_imp_zdiv_nonneg_iff)
  then have b: "0 \<le> t div 1000000 div 60" by (simp add: pos_imp_zdiv_nonneg_iff)
  then have c: "0 \<le> t div 1000000 div 60 div 60" by (simp add: pos_imp_zdiv_nonneg_iff)
  from assms a b c show ?thesis
    by (simp add: MAGNITUDES_def sdiv_nonneg smod_nonneg)
qed

lemma pad2_nat: "0 \<le> i \<Longrightarrow> pad2 i = padStart 2 (CHR ''0'') (string_of_nat (nat i))"
  by (simp add: pad2_def string_of_int_def)

lemma pad2_digits: "0 \<le> i \<Longrightarrow> \<forall>c \<in> set (pad2 i). is_digit c"
  using padStart_digits [of 2 "nat i"] by (simp add: pad2_nat)

lemma pad2_nonempty: "0 \<le> i \<Longrightarrow> pad2 i \<noteq> []"
  by (simp add: pad2_nat padStart_nonempty)

lemma pad2_value: "0 \<le> i \<Longrightarrow> int (nat_of_digits (pad2 i)) = i"
  by (simp add: pad2_nat nat_of_digits_padStart)

lemma digit_runs_time:
  assumes "0 \<le> h" "0 \<le> m" "0 \<le> s" "0 \<le> u"
  shows "digit_runs (pad2 h @ '':'' @ pad2 m @ '':'' @ pad2 s @ ''.'' @ pad2 u)
           = [pad2 h, pad2 m, pad2 s, pad2 u]"
proof -
  have colon: "\<not> is_digit (CHR '':'')" and dot: "\<not> is_digit (CHR ''.'')"
    by (simp_all add: is_digit_def)
  have "digit_runs (pad2 h @ CHR '':'' # (pad2 m @ CHR '':'' # (pad2 s @ CHR ''.'' # pad2 u)))
          = pad2 h # digit_runs (pad2 m @ CHR '':'' # (pad2 s @ CHR ''.'' # pad2 u))"
    using assms by (intro digit_runs_sep pad2_nonempty pad2_digits colon)
  also have "digit_runs (pad2 m @ CHR '':'' # (pad2 s @ CHR ''.'' # pad2 u))
          = pad2 m # digit_runs (pad2 s @ CHR ''.'' # pad2 u)"
    using assms by (intro digit_runs_sep pad2_nonempty pad2_digits colon)
  also have "digit_runs (pad2 s @ CHR ''.'' # pad2 u) = pad2 s # digit_runs (pad2 u)"
    using assms by (intro digit_runs_sep pad2_nonempty pad2_digits dot)
  also have "digit_runs (pad2 u) = [pad2 u]"
    using assms by (intro digit_runs_all pad2_nonempty pad2_digits)
  finally show ?thesis by simp
qed

lemma magnitude_at_values:
  "magnitude_at 2 = 60" "magnitude_at 1 = 60" "magnitude_at 0 = 1000000" "magnitude_at (- 1) = 1"
  by (simp_all add: magnitude_at_def MAGNITUDES_def)

lemma parse_loop_four:
  "parse_loop 0 [a, b, c, d] (int (length MAGNITUDES) - 1) =
     ((int (nat_of_digits a) * 60 + int (nat_of_digits b)) * 60 + int (nat_of_digits c)) * 1000000
       + int (nat_of_digits d)"
proof -
  have "int (length MAGNITUDES) - 1 = 3"
    by (simp add: MAGNITUDES_def)
  then show ?thesis
    by (simp add: magnitude_at_values)
qed

lemma recompose:
  fixes t :: int
  shows "((t div 1000000 div 60 div 60 * 60 + t div 1000000 div 60 mod 60) * 60
            + t div 1000000 mod 60) * 1000000 + t mod 1000000 = t"
proof -
  have "t div 1000000 div 60 div 60 * 60 + t div 1000000 div 60 mod 60 = t div 1000000 div 60"
    by simp
  moreover have "t div 1000000 div 60 * 60 + t div 1000000 mod 60 = t div 1000000"
    by simp
  moreover have "t div 1000000 * 1000000 + t mod 1000000 = t"
    by simp
  ultimately show ?thesis by simp
qed

lemma toString_in_range:
  assumes "0 \<le> t" and "t < 86400000000"
  shows "toString \<lparr>microseconds = t\<rparr> =
           Inr (pad2 (t div 1000000 div 60 div 60) @ '':'' @ pad2 (t div 1000000 div 60 mod 60)
                @ '':'' @ pad2 (t div 1000000 mod 60) @ ''.'' @ pad2 (t mod 1000000))"
proof -
  define h where "h = t div 1000000 div 60 div 60"
  from assms(2) have "h < 24"
    unfolding h_def by (simp add: zdiv_zmult2_eq [symmetric] div_less_iff_less_mult)
  moreover from assms(1) have "0 \<le> h"
    unfolding h_def by (simp add: pos_imp_zdiv_nonneg_iff)
  ultimately have "h div 24 = 0" and "h mod 24 = h"
    by simp_all
  with split_parts_nonneg [OF assms(1)]
  have sp: "split_parts t MAGNITUDES [] =
              (0, [h, t div 1000000 div 60 mod 60, t div 1000000 mod 60, t mod 1000000])"
    unfolding h_def by (simp only:)
  show ?thesis
    unfolding toString_def h_def [symmetric]
    by (simp add: sp)
qed

lemma toString_too_long:
  assumes "86400000000 \<le> t"
  shows "toString \<lparr>microseconds = t\<rparr> = Inl TooLong"
proof -
  define d where "d = t div 1000000 div 60 div 60 div 24"
  from assms have nn: "0 \<le> t" by simp
  have "d = t div 86400000000"
    unfolding d_def by (simp add: zdiv_zmult2_eq [symmetric])
  also from assms have "\<dots> > 0"
    by (simp add: pos_imp_zdiv_pos_iff)
  finally have "d \<noteq> 0" by simp
  moreover have "fst (split_parts t MAGNITUDES []) = d"
    unfolding d_def by (simp add: split_parts_nonneg [OF nn])
  ultimately show ?thesis
    by (simp add: toString_def split_beta)
qed

text \<open>
  Claim C10. For every microsecond count \<open>t\<close> with \<open>0 \<le> t < 86400000000\<close> (24 hours),
  \<open>toString\<close> returns a string and \<open>parse\<close> of that string is \<open>t\<close> again; only
  integer arithmetic is involved. For \<open>t\<close> at or above 24 hours \<open>toString\<close> throws
  (``Too long!'') instead of returning a string.
\<close>

theorem time_roundtrip:
  "(0 \<le> t \<and> t < 86400000000 \<longrightarrow>
      (\<exists>s. toString \<lparr>microseconds = t\<rparr> = Inr s \<and> parse s = Inr \<lparr>microseconds = t\<rparr>))
   \<and> (86400000000 \<le> t \<longrightarrow> toString \<lparr>microseconds = t\<rparr> = Inl TooLong)"
proof (intro conjI impI)
  assume r: "0 \<le> t \<and> t < 86400000000"
  let ?h = "t div 1000000 div 60 div 60" and ?m = "t div 1000000 div 60 mod 60"
  let ?s = "t div 1000000 mod 60" and ?u = "t mod 1000000"
  let ?str = "pad2 ?h @ '':'' @ pad2 ?m @ '':'' @ pad2 ?s @ ''.'' @ pad2 ?u"
  from r have nn: "0 \<le> ?h" "0 \<le> ?m" "0 \<le> ?s" "0 \<le> ?u"
    by (simp_all add: pos_imp_zdiv_nonneg_iff)
  from r have ts: "toString \<lparr>microseconds = t\<rparr> = Inr ?str"
    by (simp add: toString_in_range)
  have "parse ?str = Inr \<lparr>microseconds = t\<rparr>"
    unfolding parse_def digit_runs_time [OF nn]
    by (simp only: list.case parse_loop_four pad2_value [OF nn(1)] pad2_value [OF nn(2)]
          pad2_value [OF nn(3)] pad2_value [OF nn(4)] recompose)
  with ts show "\<exists>s. toString \<lparr>microseconds = t\<rparr> = Inr s \<and> parse s = Inr \<lparr>microseconds = t\<rparr>"
    by blast
next
  assume "86400000000 \<le> t"
  then show "toString \<lparr>microseconds = t\<rparr> = Inl TooLong"
    by (rule toString_too_long)
qed

theorem time_roundtrip_witness:
  "(\<exists>s. toString \<lparr>microseconds = 3723000042\<rparr> = Inr s
        \<and> parse s = Inr \<lparr>microseconds = 3723000042\<rparr>)
   \<and> toString \<lparr>microseconds = 86400000000\<rparr> = Inl TooLong"
  using time_roundtrip [of 3723000042] time_roundtrip [of 86400000000] by simp

subsection \<open>The I/O strategy selector\<close>

text \<open>
  Claim C5. The selector returns the temp-file strategy exactly when the input MIME type is
  GIF, or the input is video (its MIME type starts with \<open>video\<close>) and the output is GIF,
  or the output is MP4 or WEBM, and the streaming strategy in every other case. A GIF
  input gives temp files for every output format; PNG to PNG streams.
\<close>

theorem choose_io_spec:
  "(choose_io inputMime inputBytes exportType = TemporaryFiles \<longleftrightarrow>
      inputMime = ''image/gif''
      \<or> (take 5 inputMime = ''video'' \<and> exportType = GIF)
      \<or> exportType = MP4 \<or> exportType = WEBM)
   \<and> (choose_io inputMime inputBytes exportType = Streaming \<longleftrightarrow>
      \<not> (inputMime = ''image/gif''
      \<or> (take 5 inputMime = ''video'' \<and> exportType = GIF)
      \<or> exportType = MP4 \<or> exportType = WEBM))
   \<and> choose_io ''image/gif'' inputBytes exportType = TemporaryFiles
   \<and> choose_io ''image/png'' inputBytes PNG = Streaming"
  by (auto simp add: choose_io_def startsWith_def eval_nat_numeral)


subsection \<open>Rounding\<close>

lemma round_half_even_cases:
  "round_half_even q = \<lfloor>q\<rfloor> \<or> round_half_even q = \<lfloor>q\<rfloor> + 1"
  by (simp add: round_half_even_def Let_def)

lemma round_half_even_of_int: "round_half_even (of_int n) = n"
  by (simp add: round_half_even_def Let_def)

lemma round_half_even_mono:
  assumes "a \<le> b"
  shows "round_half_even a \<le> round_half_even b"
proof (cases "\<lfloor>a\<rfloor> = \<lfloor>b\<rfloor>")
  case True
  with assms have "a - of_int \<lfloor>a\<rfloor> \<le> b - of_int \<lfloor>b\<rfloor>"
    by simp
  with True show ?thesis
    by (auto simp: round_half_even_def Let_def)
next
  case False
  with assms have "\<lfloor>a\<rfloor> + 1 \<le> \<lfloor>b\<rfloor>"
    using floor_mono [of a b] by linarith
  moreover have "round_half_even a \<le> \<lfloor>a\<rfloor> + 1"
    using round_half_even_cases [of a] by linarith
  moreover have "\<lfloor>b\<rfloor> \<le> round_half_even b"
    using round_half_even_cases [of b] by linarith
  ultimately show ?thesis by linarith
qed

lemma round_half_even_nonneg: "0 \<le> q \<Longrightarrow> 0 \<le> round_half_even q"
  using round_half_even_mono [of 0 q] round_half_even_of_int [of 0] by simp

lemma ulp_pos: "0 < ulp q"
  by (simp add: ulp_def)

lemma fl_nonneg: "0 \<le> q \<Longrightarrow> 0 \<le> fl q"
  using ulp_pos [of q] by (simp add: fl_def round_half_even_nonneg)

lemma exponent_bounds:
  assumes "0 < q"
  shows "2 powi (exponent q) \<le> q" and "q < 2 powi (exponent q + 1)"
proof -
  obtain p d where pd: "quotient_of q = (p, d)" by (cases "quotient_of q")
  then have d: "0 < d" by (rule quotient_of_denom_pos)
  from pd have q: "q = of_int p / of_int d" by (rule quotient_of_div)
  with assms d have p: "0 < p" by (simp add: zero_less_divide_iff)
  define bp bd where "bp = bitlen p" and "bd = bitlen d"
  from p have bp1: "1 \<le> bp" unfolding bp_def by (simp add: bitlen_alt_def)
  from d have bd1: "1 \<le> bd" unfolding bd_def by (simp add: bitlen_alt_def)
  from bitlen_bounds [OF p] have "2 ^ nat (bp - 1) \<le> p" "p < 2 ^ nat bp"
    unfolding bp_def by simp_all
  then have "(of_int (2 ^ nat (bp - 1)) :: rat) \<le> of_int p" "(of_int p :: rat) < of_int (2 ^ nat bp)"
    by (simp_all only: of_int_le_iff of_int_less_iff)
  with bp1 have P: "2 powi (bp - 1) \<le> (of_int p :: rat)" "(of_int p :: rat) < 2 powi bp"
    by (simp_all add: power_int_def)
  from bitlen_bounds [OF d] have "2 ^ nat (bd - 1) \<le> d" "d < 2 ^ nat bd"
    unfolding bd_def by simp_all
  then have "(of_int (2 ^ nat (bd - 1)) :: rat) \<le> of_int d" "(of_int d :: rat) < of_int (2 ^ nat bd)"
    by (simp_all only: of_int_le_iff of_int_less_iff)
  with bd1 have D: "2 powi (bd - 1) \<le> (of_int d :: rat)" "(of_int d :: rat) < 2 powi bd"
    by (simp_all add: power_int_def)
  have dpos: "(0::rat) < of_int d" using d by simp
  have upper: "q < 2 powi (bp - bd + 1)"
  proof -
    have "q * of_int d < 2 powi bp" using P(2) dpos by (simp add: q)
    also have "(2::rat) powi bp = 2 powi (bp - bd + 1) * 2 powi (bd - 1)"
      by (simp add: power_int_add [symmetric])
    also have "\<dots> \<le> 2 powi (bp - bd + 1) * of_int d"
      using D(1) by (intro mult_left_mono) simp_all
    finally show ?thesis using dpos by simp
  qed
  have lower: "2 powi (bp - bd - 1) \<le> q"
  proof -
    have "2 powi (bp - bd - 1) * of_int d \<le> 2 powi (bp - bd - 1) * (2::rat) powi bd"
      using D(2) by (intro mult_left_mono) simp_all
    also have "\<dots> = 2 powi (bp - 1)"
      by (simp add: power_int_add [symmetric])
    also have "\<dots> \<le> q * of_int d" using P(1) dpos by (simp add: q)
    finally show ?thesis using dpos by simp
  qed
  from assms pd have ex: "exponent q = (if 2 powi (bp - bd) \<le> q then bp - bd else bp - bd - 1)"
    by (simp add: exponent_def bp_def bd_def Let_def)
  show "2 powi (exponent q) \<le> q"
    using lower by (simp add: ex)
  show "q < 2 powi (exponent q + 1)"
    using upper by (auto simp add: ex not_le)
qed

lemma powi_shift: "(2::rat) powi k * 2 powi (e - j) = 2 powi (e + (k - j))"
proof -
  have "(2::rat) powi k * 2 powi (e - j) = 2 powi (k + (e - j))"
    by (simp add: power_int_add)
  also have "(2::rat) powi (k + (e - j)) = 2 powi (e + (k - j))"
    by (rule arg_cong [where f = "\<lambda>n. 2 powi n"]) simp
  finally show ?thesis .
qed

lemma fl_mono_nonneg:
  assumes "0 \<le> a" and "a \<le> b"
  shows "fl a \<le> fl b"
proof (cases "a = 0")
  case True
  with assms fl_nonneg [of b] show ?thesis by (simp add: fl_def)
next
  case False
  with assms have a: "0 < a" and b: "0 < b" by simp_all
  define ea eb where "ea = max (exponent a) (- 1022)" and "eb = max (exponent b) (- 1022)"
  have ua: "ulp a = 2 powi (ea - 52)" and ub: "ulp b = 2 powi (eb - 52)"
    by (simp_all add: ulp_def ea_def eb_def)
  have "2 powi (exponent a) \<le> a" by (rule exponent_bounds [OF a])
  also note \<open>a \<le> b\<close>
  also have "b < 2 powi (exponent b + 1)" by (rule exponent_bounds [OF b])
  finally have strict: "(2::rat) powi (exponent a) < 2 powi (exponent b + 1)" .
  have "exponent a < exponent b + 1"
  proof (rule ccontr)
    assume "\<not> exponent a < exponent b + 1"
    then have "(2::rat) powi (exponent b + 1) \<le> 2 powi (exponent a)"
      by (intro power_int_increasing) simp_all
    with strict show False by simp
  qed
  then have le: "ea \<le> eb" by (simp add: ea_def eb_def)
  show ?thesis
  proof (cases "ea = eb")
    case True
    then have u: "ulp a = ulp b" by (simp add: ua ub)
    from assms ulp_pos [of b] have "a / ulp b \<le> b / ulp b"
      by (simp add: divide_right_mono)
    then have "round_half_even (a / ulp b) \<le> round_half_even (b / ulp b)"
      by (rule round_half_even_mono)
    with ulp_pos [of b] a b show ?thesis
      by (simp add: fl_def u)
  next
    case False
    with le have lt: "ea + 1 \<le> eb" by simp
    then have eb: "eb = exponent b" by (simp add: ea_def eb_def)
    have "a < 2 powi (exponent a + 1)" by (rule exponent_bounds [OF a])
    also have "\<dots> \<le> 2 powi (ea + 1)"
      by (intro power_int_increasing) (simp_all add: ea_def)
    finally have "a / ulp a \<le> 2 powi (ea + 1) / ulp a"
      using ulp_pos [of a] by (simp add: divide_right_mono)
    also have "2 powi (ea + 1) / ulp a = (2::rat) powi 53"
      unfolding ua by (simp add: power_int_diff [symmetric])
    also have "\<dots> = of_int (2 ^ 53)" by simp
    finally have "round_half_even (a / ulp a) \<le> round_half_even (of_int (2 ^ 53))"
      by (rule round_half_even_mono)
    then have "round_half_even (a / ulp a) \<le> 2 ^ 53"
      by (simp only: round_half_even_of_int)
    then have "(of_int (round_half_even (a / ulp a)) :: rat) \<le> of_int (2 ^ 53)"
      by (simp only: of_int_le_iff)
    then have "fl a \<le> 2 ^ 53 * ulp a"
      using a ulp_pos [of a] by (simp add: fl_def)
    also have "\<dots> = 2 powi 53 * 2 powi (ea - 52)"
      by (simp add: ua)
    also have "\<dots> = 2 powi (ea + 1)"
      using powi_shift [of 53 ea 52] by simp
    also have "\<dots> \<le> 2 powi eb"
      using lt by (intro power_int_increasing) simp_all
    finally have A: "fl a \<le> 2 powi eb" .
    have "2 powi eb \<le> b" unfolding eb by (rule exponent_bounds [OF b])
    then have "2 powi eb / ulp b \<le> b / ulp b"
      using ulp_pos [of b] by (simp add: divide_right_mono)
    moreover have "2 powi eb / ulp b = (2::rat) powi 52"
      unfolding ub by (simp add: power_int_diff [symmetric])
    moreover have "(2::rat) powi 52 = of_int (2 ^ 52)" by simp
    ultimately have "round_half_even (of_int (2 ^ 52)) \<le> round_half_even (b / ulp b)"
      by (intro round_half_even_mono) simp
    then have "2 ^ 52 \<le> round_half_even (b / ulp b)"
      by (simp only: round_half_even_of_int)
    then have "(of_int (2 ^ 52) :: rat) \<le> of_int (round_half_even (b / ulp b))"
      by (simp only: of_int_le_iff)
    then have "2 ^ 52 * ulp b \<le> fl b"
      using b ulp_pos [of b] by (simp add: fl_def)
    moreover have "2 ^ 52 * ulp b = 2 powi 52 * 2 powi (eb - 52)"
      by (simp add: ub)
    moreover have "\<dots> = 2 powi eb"
      using powi_shift [of 52 eb 52] by simp
    ultimately have "2 powi eb \<le> fl b" by simp
    with A show ?thesis by simp
  qed
qed

lemma round_half_even_abs: "\<bar>of_int (round_half_even x) :: rat\<bar> \<le> \<bar>x\<bar> + 1"
proof -
  define f where "f = \<lfloor>x\<rfloor>"
  have a: "(of_int f :: rat) \<le> x" "x < of_int f + 1"
    unfolding f_def by linarith+
  from round_half_even_cases [of x]
  consider "round_half_even x = f" | "round_half_even x = f + 1"
    unfolding f_def by blast
  then show ?thesis
  proof cases
    case 1
    with a show ?thesis by simp
  next
    case 2
    then have "(of_int (round_half_even x) :: rat) = of_int f + 1" by simp
    with a show ?thesis by linarith
  qed
qed

lemma exponent_abs: "exponent \<bar>q\<bar> = exponent q"
  by (simp add: exponent_def)

lemma ulp_le:
  assumes "q \<noteq> 0"
  shows "ulp q \<le> \<bar>q\<bar> + 1"
proof (cases "exponent q \<le> - 1022")
  case True
  then have "ulp q = 2 powi (- 1074)"
    by (simp add: ulp_def max_def)
  also have "\<dots> \<le> (1::rat)"
    using power_int_increasing [of "- 1074" 0 "2::rat"] by simp
  finally show ?thesis by simp
next
  case False
  then have "ulp q = 2 powi (exponent q - 52)"
    by (simp add: ulp_def max_def)
  also have "\<dots> \<le> 2 powi (exponent q)"
    by (intro power_int_increasing) simp_all
  also from assms have "\<dots> \<le> \<bar>q\<bar>"
    using exponent_bounds(1) [of "\<bar>q\<bar>"] by (simp add: exponent_abs)
  finally show ?thesis by simp
qed

lemma fl_abs_le: "\<bar>fl q\<bar> \<le> 2 * \<bar>q\<bar> + 1"
proof (cases "q = 0")
  case True
  then show ?thesis by (simp add: fl_def)
next
  case False
  have u: "0 < ulp q" by (rule ulp_pos)
  have "\<bar>fl q\<bar> = \<bar>of_int (round_half_even (q / ulp q))\<bar> * ulp q"
    using False u by (simp add: fl_def abs_mult)
  also have "\<dots> \<le> (\<bar>q / ulp q\<bar> + 1) * ulp q"
    using u round_half_even_abs [of "q / ulp q"] by (intro mult_right_mono) simp_all
  also have "\<dots> = \<bar>q\<bar> + ulp q"
    using u by (simp add: algebra_simps)
  also have "\<dots> \<le> 2 * \<bar>q\<bar> + 1"
    using ulp_le [OF False] by simp
  finally show ?thesis .
qed

lemma fl_bound:
  assumes "\<bar>q\<bar> \<le> b" and "1 \<le> b"
  shows "\<bar>fl q\<bar> \<le> 3 * b"
  using fl_abs_le [of q] assms by linarith

subsection \<open>Geometry\<close>

lemma js_sub_nonneg: "b \<le> a \<Longrightarrow> 0 \<le> js_sub a b"
  by (simp add: js_sub_def fl_nonneg)

lemma getCroppedRectangle_pair:
  "getCroppedRectangle \<lparr>normalized = [a, b]\<rparr> space =
     Inr \<lparr>width = js_sub (max (fst (place space a)) (fst (place space b)))
                       (min (fst (place space a)) (fst (place space b))),
          height = js_sub (max (snd (place space a)) (snd (place space b)))
                       (min (snd (place space a)) (snd (place space b))),
          rect_x = min (fst (place space a)) (fst (place space b)),
          rect_y = min (snd (place space a)) (snd (place space b))\<rparr>"
  by (cases space) (simp_all add: getCroppedRectangle_def mul_def toSpace_def min_def max_def)

lemma js_mul_bound:
  assumes "\<bar>x\<bar> \<le> r" and "\<bar>w\<bar> \<le> r" and "1 \<le> r"
  shows "\<bar>js_mul x w\<bar> \<le> 3 * r\<^sup>2"
proof -
  have "\<bar>x * w\<bar> = \<bar>x\<bar> * \<bar>w\<bar>"
    by (rule abs_mult)
  also from assms have "\<dots> \<le> r * r"
    by (intro mult_mono) simp_all
  finally have "\<bar>x * w\<bar> \<le> r\<^sup>2"
    by (simp add: power2_eq_square)
  moreover from assms(3) have "1 \<le> r\<^sup>2"
    by simp
  ultimately show ?thesis
    unfolding js_mul_def by (rule fl_bound)
qed

lemma js_add_bound:
  assumes "\<bar>u\<bar> \<le> 3 * r\<^sup>2" and "\<bar>v\<bar> \<le> r" and "1 \<le> r"
  shows "\<bar>js_add u v\<bar> \<le> 12 * r\<^sup>2"
proof -
  from assms(3) have "r * 1 \<le> r * r"
    by (intro mult_left_mono) simp_all
  then have "r \<le> r\<^sup>2"
    by (simp only: power2_eq_square mult_1_right)
  with assms(3) have "r \<le> r\<^sup>2" and one: "1 \<le> 4 * r\<^sup>2"
    by linarith+
  with assms have "\<bar>u + v\<bar> \<le> 4 * r\<^sup>2"
    by linarith
  from this one have "\<bar>fl (u + v)\<bar> \<le> 3 * (4 * r\<^sup>2)"
    by (rule fl_bound)
  then show ?thesis
    by (simp add: js_add_def)
qed

lemma js_sub_bound:
  assumes "\<bar>u\<bar> \<le> c" and "\<bar>v\<bar> \<le> c" and "1 \<le> c"
  shows "\<bar>js_sub u v\<bar> \<le> 6 * c"
proof -
  from assms have "\<bar>u - v\<bar> \<le> 2 * c" and "1 \<le> 2 * c"
    by linarith+
  then have "\<bar>fl (u - v)\<bar> \<le> 3 * (2 * c)"
    by (rule fl_bound)
  then show ?thesis
    by (simp add: js_sub_def)
qed

lemma place_bound:
  assumes "list_all (\<lambda>q. \<bar>q\<bar> \<le> r) ([fst p, snd p] @ space_numbers space)" and "1 \<le> r"
  shows "\<bar>fst (place space p)\<bar> \<le> 12 * r\<^sup>2" and "\<bar>snd (place space p)\<bar> \<le> 12 * r\<^sup>2"
proof -
  have weaker: "\<bar>q\<bar> \<le> 12 * r\<^sup>2" if "\<bar>q\<bar> \<le> 3 * r\<^sup>2" for q :: rat
  proof -
    have "0 \<le> r\<^sup>2"
      by simp
    with that show ?thesis
      by linarith
  qed
  show "\<bar>fst (place space p)\<bar> \<le> 12 * r\<^sup>2"
  proof (cases space)
    case (Scale d)
    with assms show ?thesis
      by (simp add: mul_point_def split_beta weaker js_mul_bound del: abs_le_iff)
  next
    case (InSpace s)
    with assms show ?thesis
      by (simp add: toSpace_point_def split_beta js_add_bound js_mul_bound del: abs_le_iff)
  qed
  show "\<bar>snd (place space p)\<bar> \<le> 12 * r\<^sup>2"
  proof (cases space)
    case (Scale d)
    with assms show ?thesis
      by (simp add: mul_point_def split_beta weaker js_mul_bound del: abs_le_iff)
  next
    case (InSpace s)
    with assms show ?thesis
      by (simp add: toSpace_point_def split_beta js_add_bound js_mul_bound del: abs_le_iff)
  qed
qed

lemma max_min_abs: "max u v - min u v = \<bar>u - v\<bar>" for u v :: rat
  by (simp add: max_def min_def)

lemma extent_bound:
  assumes "\<bar>u\<bar> \<le> 12 * r\<^sup>2" and "\<bar>v\<bar> \<le> 12 * r\<^sup>2" and "1 \<le> r"
  shows "\<bar>js_sub (max u v) (min u v)\<bar> \<le> 72 * r\<^sup>2" and "\<bar>min u v\<bar> \<le> 72 * r\<^sup>2"
proof -
  from assms(3) have "r * 1 \<le> r * r"
    by (intro mult_left_mono) simp_all
  then have "r \<le> r\<^sup>2"
    by (simp only: power2_eq_square mult_1_right)
  with assms(3) have one: "1 \<le> 12 * r\<^sup>2"
    by linarith
  from assms have "\<bar>max u v\<bar> \<le> 12 * r\<^sup>2" and m: "\<bar>min u v\<bar> \<le> 12 * r\<^sup>2"
    by (simp_all add: max_def min_def)
  from this one have "\<bar>js_sub (max u v) (min u v)\<bar> \<le> 6 * (12 * r\<^sup>2)"
    by (rule js_sub_bound)
  then show "\<bar>js_sub (max u v) (min u v)\<bar> \<le> 72 * r\<^sup>2"
    by simp
  from m one show "\<bar>min u v\<bar> \<le> 72 * r\<^sup>2"
    by linarith
qed

text \<open>
  Claim C6. For every pair of crop corners \<open>a\<close>, \<open>b\<close>, in either order, whose coordinates and
  whose target space are finite numbers of magnitude at most \<open>2 ^ 500\<close>, the derived rectangle is
  the axis-aligned bounding box of the two corners as placed in the requested space: its
  offset is their element-wise minimum, its width and height are the rounded distances
  between the placed corners along each axis and are not negative, all four numbers stay
  below \<open>2 ^ 1023\<close> in magnitude (so that no operation leaves the finite range), and
  swapping the corners gives the same rectangle.
\<close>

theorem getCroppedRectangle_bounding_box:
  assumes "list_all within_reach ([fst a, snd a, fst b, snd b] @ space_numbers space)"
  shows "case getCroppedRectangle \<lparr>normalized = [a, b]\<rparr> space of
     Inl e \<Rightarrow> False
   | Inr r \<Rightarrow>
       rect_x r = min (fst (place space a)) (fst (place space b))
       \<and> rect_y r = min (snd (place space a)) (snd (place space b))
       \<and> width r = fl \<bar>fst (place space a) - fst (place space b)\<bar>
       \<and> height r = fl \<bar>snd (place space a) - snd (place space b)\<bar>
       \<and> 0 \<le> width r \<and> 0 \<le> height r
       \<and> list_all (\<lambda>v. \<bar>v\<bar> < 2 ^ 1023) [width r, height r, rect_x r, rect_y r]
       \<and> getCroppedRectangle \<lparr>normalized = [b, a]\<rparr> space = Inr r"
proof -
  let ?ax = "fst (place space a)" and ?ay = "snd (place space a)"
  let ?bx = "fst (place space b)" and ?by = "snd (place space b)"
  define r :: rat where "r = 2 ^ 500"
  have r: "1 \<le> r"
    unfolding r_def by (rule one_le_power) simp
  have top: "72 * r\<^sup>2 < 2 ^ 1023"
    unfolding r_def by simp
  have fin: "\<bar>q\<bar> < 2 ^ 1023" if "\<bar>q\<bar> \<le> 72 * r\<^sup>2" for q
    using that top by (rule le_less_trans)
  from assms have ra: "list_all (\<lambda>q. \<bar>q\<bar> \<le> r) ([fst a, snd a] @ space_numbers space)"
    and rb: "list_all (\<lambda>q. \<bar>q\<bar> \<le> r) ([fst b, snd b] @ space_numbers space)"
    unfolding within_reach_def r_def by simp_all
  note A = place_bound [OF ra r] and B = place_bound [OF rb r]
  have nonneg: "0 \<le> js_sub (max u v) (min u v)" for u v :: number
    by (rule js_sub_nonneg) simp
  have extent: "js_sub (max u v) (min u v) = fl \<bar>u - v\<bar>" for u v :: number
    by (simp add: js_sub_def max_min_abs)
  note X = extent_bound [OF A(1) B(1) r, THEN fin] and Y = extent_bound [OF A(2) B(2) r, THEN fin]
  have w: "\<bar>fl \<bar>?ax - ?bx\<bar>\<bar> < 2 ^ 1023" and h: "\<bar>fl \<bar>?ay - ?by\<bar>\<bar> < 2 ^ 1023"
    using X(1) Y(1) unfolding extent .
  have swap: "getCroppedRectangle \<lparr>normalized = [b, a]\<rparr> space
      = getCroppedRectangle \<lparr>normalized = [a, b]\<rparr> space"
    unfolding getCroppedRectangle_pair
    by (simp only: min.commute [of ?bx ?ax] max.commute [of ?bx ?ax]
        min.commute [of ?by ?ay] max.commute [of ?by ?ay])
  show ?thesis
    unfolding swap unfolding getCroppedRectangle_pair sum.case extent
    by (simp only: Dimensions.select_convs Rectangle.select_convs list.pred_inject simp_thms
        nonneg [unfolded extent] w h X(2) Y(2))
qed

theorem getCroppedRectangle_bounding_box_witness:
  "list_all within_reach ([1, 1 / 4, 0, 3 / 4] @ space_numbers (Scale \<lparr>width = 640, height = 480\<rparr>))
   \<and> getCroppedRectangle \<lparr>normalized = [(1, 1 / 4), (0, 3 / 4)]\<rparr> (Scale \<lparr>width = 640, height = 480\<rparr>)
       = Inr \<lparr>width = 640, height = 240, rect_x = 0, rect_y = 120\<rparr>
   \<and> getCroppedRectangle \<lparr>normalized = [(0, 3 / 4), (1, 1 / 4)]\<rparr> (Scale \<lparr>width = 640, height = 480\<rparr>)
       = Inr \<lparr>width = 640, height = 240, rect_x = 0, rect_y = 120\<rparr>"
proof -
  have reach: "list_all within_reach ([fst (1, 1 / 4), snd (1, 1 / 4), fst (0, 3 / 4), snd (0, 3 / 4)]
      @ space_numbers (Scale \<lparr>width = 640, height = 480\<rparr>))"
    by (simp add: within_reach_def)
  have first: "getCroppedRectangle \<lparr>normalized = [(1, 1 / 4), (0, 3 / 4)]\<rparr> (Scale \<lparr>width = 640, height = 480\<rparr>)
       = Inr \<lparr>width = 640, height = 240, rect_x = 0, rect_y = 120\<rparr>"
    by code_simp
  from getCroppedRectangle_bounding_box [OF reach] first reach show ?thesis
    by simp
qed

lemma inverted_length: "length (normalized (inverted p arg)) = length (normalized p)"
  by (simp add: inverted_def Let_def)

lemma inverted_x_only:
  "inverted p x_only = \<lparr>normalized = map (\<lambda>(vx, vy). (js_sub 1 vx, vy)) (normalized p)\<rparr>"
  by (simp add: inverted_def x_only_def)

text \<open>
  Claim C9, as stated, fails: \<open>1 - vx\<close> is rounded, so inverting the x axis twice need
  not give the coordinate back. For the number \<open>0.1\<close> the first inversion gives \<open>0.9\<close> and
  the second \<open>0.09999999999999998\<close>.
\<close>

theorem inverted_twice_counterexample:
  "inverted (inverted \<lparr>normalized = [(fl (1 / 10), 0)]\<rparr> x_only) x_only
     \<noteq> \<lparr>normalized = [(fl (1 / 10), 0)]\<rparr>"
proof -
  have "js_sub 1 (js_sub 1 (fl (1 / 10))) \<noteq> fl (1 / 10)"
    by code_simp
  then show ?thesis
    by (simp add: inverted_x_only)
qed

text \<open>
  Claim C9, amended. \<open>inverted\<close> never changes the receiver nor any other point list
  already allocated, and its result has as many points as the receiver. Inverting the x
  axis twice gives the receiver's points back whenever, for each x coordinate \<open>v\<close> of
  the receiver, \<open>v\<close> is a number and \<open>1 - v\<close> is a number too, so that no rounding
  happens (as for \<open>0\<close>, \<open>0.25\<close>, \<open>0.5\<close>, \<open>0.75\<close> and \<open>1\<close>); the y coordinates are
  unrestricted.
\<close>

theorem inverted_pure_and_exact_involution:
  assumes "inverted_at h this arg = Some (h', r)"
  shows "(\<forall>i < length h. h' ! i = h ! i)
         \<and> length (normalized (h' ! r)) = length (normalized (h ! this))
         \<and> ((\<forall>p \<in> set (normalized (h ! this)). fl (fst p) = fst p \<and> fl (1 - fst p) = 1 - fst p)
               \<longrightarrow> inverted (inverted (h ! this) x_only) x_only = h ! this)"
proof -
  from assms have this: "this < length h" and h': "h' = h @ [inverted (h ! this) arg]"
    and r: "r = length h"
    by (auto simp: inverted_at_def split: if_splits)
  have "\<forall>i < length h. h' ! i = h ! i"
    by (simp add: h' nth_append)
  moreover have "length (normalized (h' ! r)) = length (normalized (h ! this))"
    by (simp add: h' r inverted_length)
  moreover have "inverted (inverted (h ! this) x_only) x_only = h ! this"
    if exact: "\<forall>p \<in> set (normalized (h ! this)). fl (fst p) = fst p \<and> fl (1 - fst p) = 1 - fst p"
  proof -
    have "js_sub 1 (js_sub 1 (fst p)) = fst p" if "p \<in> set (normalized (h ! this))" for p
      using exact that by (simp add: js_sub_def)
    then have "map ((\<lambda>(vx, vy). (js_sub 1 vx, vy)) \<circ> (\<lambda>(vx, vy). (js_sub 1 vx, vy)))
                 (normalized (h ! this)) = map id (normalized (h ! this))"
      by (intro map_cong) (auto simp: case_prod_beta)
    then show ?thesis
      by (simp add: inverted_x_only)
  qed
  ultimately show ?thesis by blast
qed

theorem inverted_pure_and_exact_involution_witness:
  "inverted_at [\<lparr>normalized = [(1 / 4, fl (2 / 5)), (3 / 4, fl (2 / 5))]\<rparr>] 0 x_only
     = Some ([\<lparr>normalized = [(1 / 4, fl (2 / 5)), (3 / 4, fl (2 / 5))]\<rparr>,
              \<lparr>normalized = [(3 / 4, fl (2 / 5)), (1 / 4, fl (2 / 5))]\<rparr>], 1)
   \<and> fl (1 / 4) = 1 / 4 \<and> fl (1 - 1 / 4) = 1 - 1 / 4
   \<and> fl (3 / 4) = 3 / 4 \<and> fl (1 - 3 / 4) = 1 - 3 / 4
   \<and> inverted (inverted \<lparr>normalized = [(1 / 4, fl (2 / 5)), (3 / 4, fl (2 / 5))]\<rparr> x_only) x_only
       = \<lparr>normalized = [(1 / 4, fl (2 / 5)), (3 / 4, fl (2 / 5))]\<rparr>"
proof -
  let ?P = "\<lparr>normalized = [(1 / 4, fl (2 / 5)), (3 / 4, fl (2 / 5))]\<rparr>"
  have q: "fl (1 / 4) = 1 / 4" "fl (3 / 4) = 3 / 4"
    by code_simp+
  then have s: "js_sub 1 (1 / 4) = 3 / 4" "js_sub 1 (3 / 4) = 1 / 4"
    by (simp_all add: js_sub_def)
  have a: "inverted_at [?P] 0 x_only
             = Some ([?P, \<lparr>normalized = [(3 / 4, fl (2 / 5)), (1 / 4, fl (2 / 5))]\<rparr>], 1)"
    by (simp add: inverted_at_def inverted_x_only s)
  have e: "\<forall>p \<in> set [(1 / 4, fl (2 / 5)), (3 / 4, fl (2 / 5))].
             fl (fst p) = fst p \<and> fl (1 - fst p) = 1 - fst p"
    by (simp add: q)
  from inverted_pure_and_exact_involution [OF a] e a show ?thesis
    by simp
qed

subsection \<open>The temporary-file manager\<close>

lemma getPathsToDelete_length:
  "length (getPathsToDelete resolve this entries flt) \<le> length entries"
  by (induction entries) (auto simp: Let_def split: Inlcude.splits)



lemma getPathsToDelete_all_kept:
  assumes "length (getPathsToDelete resolve this entries flt) = length entries"
  shows "getPathsToDelete resolve this entries flt
           = map (\<lambda>e. resolve (parentPath e) (name e)) entries"
  using assms
proof (induction entries)
  case Nil
  then show ?case by simp
next
  case (Cons e es)
  have le: "length (getPathsToDelete resolve this es flt) \<le> length es"
    by (rule getPathsToDelete_length)
  from Cons.prems le have kept: "getPathsToDelete resolve this (e # es) flt
      = resolve (parentPath e) (name e) # getPathsToDelete resolve this es flt"
    by (auto simp: Let_def split: Inlcude.splits if_splits)
  with Cons.prems have "length (getPathsToDelete resolve this es flt) = length es"
    by simp
  with Cons.IH kept show ?case by simp
qed




lemma Rm_in_map: "Rm p \<in> set (map Rm ps) \<longleftrightarrow> p \<in> set ps"
  by auto




lemma unique_result:
  "unique resolve this (Some \<lparr>prefix_opt = pre, suffix_opt = suf\<rparr>) =
     (this\<lparr>counter := counter this + 1\<rparr>,
      resolve (path this)
        ((if truthy pre then the pre else []) @ string_of_nat (counter this)
           @ (if truthy suf then the suf else [])))"
  by (simp add: unique_def Let_def)

text \<open>
  Claim C8: \<open>create\<close> called \<open>N\<close> times on a fresh manager is to give \<open>N\<close> distinct
  paths, for arbitrary prefix and suffix arguments. The code does not: the counter is
  concatenated to the prefix and suffix with nothing between them, so
  \<open>create(undefined, "1")\<close> followed by \<open>create("0")\<close> returns the name \<open>01\<close> twice.
\<close>

theorem create_collision:
  "snd (creates resolve (fst (new_FileManager cfg)) [(None, Some ''1''), (Some ''0'', None)])
     = [resolve (where_path cfg) ''01'', resolve (where_path cfg) ''01'']"
proof -
  have s: "string_of_nat 0 = ''0''" "string_of_nat (Suc 0) = ''1''"
    by code_simp+
  show ?thesis
    by (simp add: new_FileManager_def create_def unique_result register_def s)
qed

text \<open>
  What holds of \<open>unique\<close>: calls that all pass the same prefix and suffix get pairwise
  distinct paths, since the decimal form of the counter is injective.
\<close>

lemma string_of_nat_inj: "string_of_nat m = string_of_nat n \<Longrightarrow> m = n"
  by (metis nat_of_digits_string_of_nat)

lemma create_ok:
  "create resolve True this pre suf =
     (register (this\<lparr>counter := counter this + 1\<rparr>)
        (resolve (path this) (unique_name pre suf (counter this))),
      Inr (resolve (path this) (unique_name pre suf (counter this))))"
  by (simp add: create_def unique_result unique_name_def)

lemma creates_Cons_snd:
  "snd (creates resolve this ((pre, suf) # calls)) =
     resolve (path this) (unique_name pre suf (counter this))
       # snd (creates resolve
                (register (this\<lparr>counter := counter this + 1\<rparr>)
                   (resolve (path this) (unique_name pre suf (counter this)))) calls)"
  by (simp only: creates.simps create_ok prod.case sum.case split_beta snd_conv fst_conv)

lemma creates_same_affixes:
  "snd (creates resolve this (replicate n (pre, suf))) =
     map (\<lambda>k. resolve (path this) (unique_name pre suf k)) [counter this ..< counter this + n]"
proof (induction n arbitrary: this)
  case 0
  then show ?case by simp
next
  case (Suc n)
  define after where "after = register (this\<lparr>counter := counter this + 1\<rparr>)
      (resolve (path this) (unique_name pre suf (counter this)))"
  have p: "path after = path this" and c: "counter after = Suc (counter this)"
    by (simp_all add: after_def register_def)
  have "snd (creates resolve this (replicate (Suc n) (pre, suf))) =
      resolve (path this) (unique_name pre suf (counter this))
        # snd (creates resolve after (replicate n (pre, suf)))"
    unfolding after_def replicate_Suc by (rule creates_Cons_snd)
  also have "snd (creates resolve after (replicate n (pre, suf))) =
      map (\<lambda>k. resolve (path this) (unique_name pre suf k)) [Suc (counter this) ..< Suc (counter this) + n]"
    using Suc [of after] by (simp only: p c)
  also have "resolve (path this) (unique_name pre suf (counter this))
        # map (\<lambda>k. resolve (path this) (unique_name pre suf k)) [Suc (counter this) ..< Suc (counter this) + n]
      = map (\<lambda>k. resolve (path this) (unique_name pre suf k)) [counter this ..< counter this + Suc n]"
    by (simp add: upt_rec [of "counter this"])
  finally show ?case .
qed

lemma unique_name_inj: "unique_name pre suf j = unique_name pre suf k \<Longrightarrow> j = k"
  by (auto simp: unique_name_def dest: string_of_nat_inj)

lemma creates_distinct_same_affixes:
  assumes "inj (resolve (path this))"
  shows "distinct (snd (creates resolve this (replicate n (pre, suf))))"
proof -
  have "inj (\<lambda>k. resolve (path this) (unique_name pre suf k))"
    using assms by (auto simp: inj_def dest: unique_name_inj)
  then show ?thesis
    by (simp add: creates_same_affixes distinct_map inj_on_def inj_def)
qed

subsection \<open>Socket bridges\<close>

lemma socket_closed_registers_nothing:
  "\<not> listening this \<Longrightarrow>
     registered (fst (foldl socket_step (provider, this) events)) = registered provider"
proof (induction events arbitrary: provider this)
  case Nil
  then show ?case by simp
next
  case (Cons e events)
  then show ?case by (cases e) simp_all
qed

lemma socket_registers_on_connection:
  "listening this \<Longrightarrow>
     registered (fst (foldl socket_step (provider, this) events)) =
       (if Connection \<in> set (takeWhile (\<lambda>e. e \<noteq> Finish) events)
        then insert (socket_path this) (registered provider) else registered provider)"
proof (induction events arbitrary: provider this)
  case Nil
  then show ?case by simp
next
  case (Cons e events)
  show ?case
  proof (cases e)
    case Connection
    with Cons.prems Cons.IH [of "this\<lparr>socket_status := SOCKET_OPEN\<rparr>" "register provider (socket_path this)"]
    show ?thesis by (auto simp: register_def)
  next
    case Finish
    with socket_closed_registers_nothing [of "this\<lparr>socket_status := SOCKET_CLOSED, listening := False\<rparr>" provider events]
    show ?thesis by simp
  qed
qed

text \<open>
  Claim C3, as stated, fails: the constructor of a bridge reserves the path and starts
  listening on it (which creates the socket file), but registers nothing; when the
  stream finishes with no peer ever connected, the path is still unregistered.
\<close>

theorem socket_unregistered_counterexample:
  "new_SocketPipe posix_join (initialized (fst (new_FileManager tmp_config))) =
     ((\<lparr>config = tmp_config, path = ''/tmp/vencord'', registered = {}, status = READY, counter = 1\<rparr>,
       \<lparr>socket_path = ''/tmp/vencord/socket.0'', socket_status = SOCKET_PENDING, listening = True\<rparr>),
      [Listen ''/tmp/vencord/socket.0''])
   \<and> ''/tmp/vencord/socket.0'' \<notin> registered (fst (foldl socket_step
         (fst (new_SocketPipe posix_join (initialized (fst (new_FileManager tmp_config))))) [Finish]))"
proof -
  have s: "string_of_nat 0 = ''0''"
    by code_simp
  have n: "new_SocketPipe posix_join (initialized (fst (new_FileManager tmp_config))) =
     ((\<lparr>config = tmp_config, path = ''/tmp/vencord'', registered = {}, status = READY, counter = 1\<rparr>,
       \<lparr>socket_path = ''/tmp/vencord/socket.0'', socket_status = SOCKET_PENDING, listening = True\<rparr>),
      [Listen ''/tmp/vencord/socket.0''])"
    by (simp add: new_SocketPipe_def new_FileManager_def initialized_def tmp_config_def
        unique_result posix_join_def s)
  show ?thesis
    unfolding n by simp
qed

text \<open>
  Claim C3, amended. A bridge listens on its path from construction, and the path (not
  registered before) is registered with the resource manager exactly when a peer
  connects before the stream finishes; registration happens in the connection listener.
\<close>

theorem socket_registered_iff_connected:
  assumes "new_SocketPipe resolve provider = ((provider', this), effects)"
    and "socket_path this \<notin> registered provider"
  shows "effects = [Listen (socket_path this)]
         \<and> (socket_path this \<in> registered (fst (foldl socket_step (provider', this) events))
              \<longleftrightarrow> Connection \<in> set (takeWhile (\<lambda>e. e \<noteq> Finish) events))"
proof -
  from assms(1) have "listening this" and "registered provider' = registered provider"
    and "effects = [Listen (socket_path this)]"
    by (auto simp: new_SocketPipe_def unique_result)
  with assms(2) socket_registers_on_connection [of this provider' events] show ?thesis
    by simp
qed

theorem socket_registered_iff_connected_witness:
  "''/tmp/vencord/socket.0'' \<in> registered (fst (foldl socket_step
       (fst (new_SocketPipe posix_join (initialized (fst (new_FileManager tmp_config)))))
       [Connection, Finish]))
   \<and> ''/tmp/vencord/socket.0'' \<notin> registered (fst (foldl socket_step
       (fst (new_SocketPipe posix_join (initialized (fst (new_FileManager tmp_config)))))
       [Finish, Connection]))"
proof -
  let ?m = "initialized (fst (new_FileManager tmp_config))"
  let ?p = "\<lparr>config = tmp_config, path = ''/tmp/vencord'', registered = {}, status = READY, counter = 1\<rparr>"
  let ?s = "\<lparr>socket_path = ''/tmp/vencord/socket.0'', socket_status = SOCKET_PENDING, listening = True\<rparr>"
  have s: "string_of_nat 0 = ''0''"
    by code_simp
  have n: "new_SocketPipe posix_join ?m = ((?p, ?s), [Listen ''/tmp/vencord/socket.0''])"
    by (simp add: new_SocketPipe_def new_FileManager_def initialized_def tmp_config_def
        unique_result posix_join_def s)
  have r: "socket_path ?s \<notin> registered ?m"
    by (simp add: new_FileManager_def initialized_def)
  have c: "Connection \<in> set (takeWhile (\<lambda>e. e \<noteq> Finish) [Connection, Finish])"
    and f: "Connection \<notin> set (takeWhile (\<lambda>e. e \<noteq> Finish) [Finish, Connection])"
    by simp_all
  from socket_registered_iff_connected [OF n r, of "[Connection, Finish]"] c
  have A: "socket_path ?s \<in> registered (fst (foldl socket_step (?p, ?s) [Connection, Finish]))"
    by blast
  from socket_registered_iff_connected [OF n r, of "[Finish, Connection]"] f
  have B: "socket_path ?s \<notin> registered (fst (foldl socket_step (?p, ?s) [Finish, Connection]))"
    by blast
  have p: "socket_path ?s = ''/tmp/vencord/socket.0''"
    by simp
  from A B show ?thesis
    unfolding n fst_conv p by (rule conjI)
qed

subsection \<open>Starting a job\<close>

lemma buildArguments_shape:
  assumes "crop (opt_target options) = Some c"
  shows "\<exists>leading rest trailing.
           buildArguments ns pf io options
             = Inr (leading @ [''-filter_complex'', crop_filter ns c @ rest] @ trailing)"
proof -
  define img2vid where "img2vid \<longleftrightarrow> startsWith (mime (opt_file options)) ''image''
      \<and> startsWith (format_mime (target_type (opt_target options))) ''video''"
  define leading where "leading =
      (if img2vid then [''-progress'', ''-'', ''-nostats'', ''-y'', ''-loop'', ''1'']
       else [''-progress'', ''-'', ''-nostats'', ''-y''])
      @ [''-i'', main_path (paths io), ''-f'', ''rawvideo'', ''-pix_fmt'', ''rgba'', ''-s'',
         ns (width (bounds (opt_overlay options))) @ ''x'' @ ns (height (bounds (opt_overlay options))),
         ''-i'', bubble_path (paths io)]"
  define overlaid where "overlaid =
      (if transparent (opt_overlay options)
       then ''[1]alphaextract[trans];['' @ ''cropped'' @ ''][trans]alphamerge[overlaid];''
       else ''['' @ ''cropped'' @ ''][1]overlay='' @ ns (rect_x (bounds (opt_overlay options)))
              @ '':'' @ ns (rect_y (bounds (opt_overlay options))) @ ''[overlaid];'')"
  define rest where "rest =
      (if target_type (opt_target options) = GIF
       then overlaid @ ''['' @ ''overlaid''
              @ '']split=[a][b];[a]palettegen[pal];[b][pal]paletteuse=dither=sierra2_4a[paletted];''
       else overlaid)"
  define last where "last =
      (if target_type (opt_target options) = GIF then ''paletted'' else ''overlaid'')"
  define trailing where "trailing =
      [''-map'', ''['' @ last @ '']'', ''-map'', ''0:a?'']
      @ outputSpecificationToFfmpegArguments pf (target_type (opt_target options))
      @ (if img2vid then [''-t'', ''60''] else []) @ [out_path (paths io)]"
  have "buildArguments ns pf io options
          = Inr (leading @ [''-filter_complex'', crop_filter ns c @ rest] @ trailing)"
    using assms
    by (cases img2vid; cases "transparent (opt_overlay options)";
        cases "target_type (opt_target options) = GIF")
      (simp_all add: buildArguments_def Let_def split_beta img2vid_def
        leading_def trailing_def rest_def last_def overlaid_def)
  then show ?thesis by blast
qed

lemma files_ok:
  "\<exists>t io effects. files resolve True temp = ((t, Inr io), effects)"
  by (simp add: files_def create_ok)

lemma streaming_ok:
  "\<exists>t socks io effects. streaming resolve temp = ((t, socks, io), effects)"
  by (simp add: streaming_def new_SocketPipe_def split_beta)

lemma IO_get_ok:
  "\<exists>t socks io effects. IO_get resolve True temp options = ((t, socks, Inr io), effects)"
proof (cases "choose_io (mime (opt_file options)) (length (file_data (opt_file options)))
                (target_type (opt_target options))")
  case Streaming
  with streaming_ok [of resolve temp] show ?thesis
    by (auto simp: IO_get_def)
next
  case TemporaryFiles
  with files_ok [of resolve temp] show ?thesis
    by (auto simp: IO_get_def)
qed

lemma FFmpegJob_for_started:
  assumes "located env = Located bin" and "open_ok env"
    and "crop (opt_target options) = Some c"
  shows "\<exists>t socks io effects leading rest trailing.
           FFmpegJob_for env temp options =
             ((t, socks,
               Started (fst (new_FFmpegJob bin io
                  (leading @ [''-filter_complex'', crop_filter (number_string env) c @ rest] @ trailing)))),
              effects,
              [Spawn bin (leading @ [''-filter_complex'', crop_filter (number_string env) c @ rest] @ trailing)
                 ''SIGKILL''])"
proof -
  from IO_get_ok [of "resolve_path env" temp options] assms(2)
  obtain t socks io effects
    where io: "IO_get (resolve_path env) (open_ok env) temp options = ((t, socks, Inr io), effects)"
    by auto
  from buildArguments_shape [OF assms(3), of "number_string env" "platform env" io]
  obtain leading rest trailing where
    args: "buildArguments (number_string env) (platform env) io options
             = Inr (leading @ [''-filter_complex'', crop_filter (number_string env) c @ rest] @ trailing)"
    by blast
  have "FFmpegJob_for env temp options =
             ((t, socks,
               Started (fst (new_FFmpegJob bin io
                  (leading @ [''-filter_complex'', crop_filter (number_string env) c @ rest] @ trailing)))),
              effects,
              [Spawn bin (leading @ [''-filter_complex'', crop_filter (number_string env) c @ rest] @ trailing)
                 ''SIGKILL''])"
    unfolding FFmpegJob_for_def assms(1) tryGetFfmpegPath.simps sum.case io prod.case args
    by (simp add: new_FFmpegJob_def)
  then show ?thesis by blast
qed

text \<open>
  Claim C2, amended. No request is rejected for its crop rectangle: whenever the
  encoder binary is located, the temporary files can be opened and the request carries a
  crop, degenerate (zero width or height) or not, the job starts, the encoder process
  is spawned, and the crop's width, height and offset stand as they are in the
  \<open>crop=\<close> stage of the \<open>-filter_complex\<close> argument.
\<close>

theorem degenerate_crop_reaches_encoder:
  assumes "located env = Located bin" and "open_ok env"
    and "crop (opt_target options) = Some c"
  shows "\<exists>j leading rest trailing.
           started (ffmpeg env st options) = Started j
           \<and> spawn_args j = leading @ [''-filter_complex'', crop_filter (number_string env) c @ rest] @ trailing
           \<and> process_effects (ffmpeg env st options) = [Spawn bin (spawn_args j) ''SIGKILL'']"
proof -
  obtain st1 out kills where a: "ffmpeg_begin env st = (st1, out, kills)"
    by (cases "ffmpeg_begin env st")
  from FFmpegJob_for_started [OF assms, of "fftemp st1"]
  obtain t socks io effects leading rest trailing where
    f: "FFmpegJob_for env (fftemp st1) options =
             ((t, socks,
               Started (fst (new_FFmpegJob bin io
                  (leading @ [''-filter_complex'', crop_filter (number_string env) c @ rest] @ trailing)))),
              effects,
              [Spawn bin (leading @ [''-filter_complex'', crop_filter (number_string env) c @ rest] @ trailing)
                 ''SIGKILL''])"
    by blast
  have "started (ffmpeg env st options) = Started (fst (new_FFmpegJob bin io
                  (leading @ [''-filter_complex'', crop_filter (number_string env) c @ rest] @ trailing)))"
    and "process_effects (ffmpeg env st options) =
      [Spawn bin (leading @ [''-filter_complex'', crop_filter (number_string env) c @ rest] @ trailing) ''SIGKILL'']"
    unfolding ffmpeg_def a prod.case ffmpeg_resume_def f by simp_all
  moreover have "spawn_args (fst (new_FFmpegJob bin io args)) = args" for args
    by (simp add: new_FFmpegJob_def)
  ultimately show ?thesis by metis
qed

text \<open>
  Claim C2, as stated, fails: a request whose crop is the empty rectangle at the origin
  spawns the encoder with \<open>crop=0:0:0:0\<close> in its filter graph.
\<close>

theorem degenerate_crop_counterexample:
  "process_effects (ffmpeg sample_env sample_native
      (sample_options \<lparr>width = 0, height = 0, rect_x = 0, rect_y = 0\<rparr>))
     = [Spawn ''/usr/bin/ffmpeg''
          [''-progress'', ''-'', ''-nostats'', ''-y'', ''-i'', ''/tmp/vencord/main0'',
           ''-f'', ''rawvideo'', ''-pix_fmt'', ''rgba'', ''-s'', ''640x480'',
           ''-i'', ''/tmp/vencord/bubble1'', ''-filter_complex'',
           ''[0]crop=0:0:0:0:exact=1[cropped];[cropped][1]overlay=0:0[overlaid];[overlaid]split=[a][b];[a]palettegen[pal];[b][pal]paletteuse=dither=sierra2_4a[paletted];'',
           ''-map'', ''[paletted]'', ''-map'', ''0:a?'', ''-f'', ''gif'', ''/tmp/vencord/out2'']
          ''SIGKILL'']"
  by code_simp

theorem degenerate_crop_reaches_encoder_witness:
  "\<exists>j leading rest trailing.
     started (ffmpeg sample_env sample_native
        (sample_options \<lparr>width = 0, height = 0, rect_x = 0, rect_y = 0\<rparr>)) = Started j
     \<and> spawn_args j = leading @ [''-filter_complex'', ''[0]crop=0:0:0:0:exact=1[cropped];'' @ rest] @ trailing
     \<and> process_effects (ffmpeg sample_env sample_native
          (sample_options \<lparr>width = 0, height = 0, rect_x = 0, rect_y = 0\<rparr>))
         = [Spawn ''/usr/bin/ffmpeg'' (spawn_args j) ''SIGKILL'']"
proof -
  let ?zero = "\<lparr>width = 0, height = 0, rect_x = 0, rect_y = 0\<rparr>"
  have a: "located sample_env = Located ''/usr/bin/ffmpeg''" and b: "open_ok sample_env"
    and n: "number_string sample_env = integer_string"
    by (simp_all add: sample_env_def)
  have c: "crop (opt_target (sample_options ?zero)) = Some ?zero"
    by (simp add: sample_options_def)
  have f: "crop_filter integer_string ?zero = ''[0]crop=0:0:0:0:exact=1[cropped];''"
    by code_simp
  from degenerate_crop_reaches_encoder [OF a b c, of sample_native] show ?thesis
    unfolding n f .
qed

subsection \<open>Superseding and cancelling a job\<close>

lemma handle_keeps_signal:
  "killSignal (job_after (handle out j e)) = killSignal j
   \<and> aborted (job_after (handle out j e)) = aborted j"
  by (cases e)
    (auto simp: on_error_def on_exit_def on_close_def on_stdout_def on_stderr_def
      on_output_chunk_def Let_def split: option.splits sum.splits)

lemma deliver_keeps_signal:
  "killSignal (fst (deliver out j es)) = killSignal j
   \<and> aborted (fst (deliver out j es)) = aborted j"
proof (induction es arbitrary: j)
  case Nil
  then show ?case by simp
next
  case (Cons e es)
  from Cons [of "job_after (handle out j e)"] handle_keeps_signal [of out j e]
  show ?case by (simp add: split_beta)
qed

lemma deliver_Cons:
  "snd (deliver out j (e # es)) = emitted (handle out j e) @ snd (deliver out (job_after (handle out j e)) es)"
  by (simp add: split_beta)

lemma handle_success:
  "Success data \<in> set (emitted (handle out j e)) \<Longrightarrow> \<exists>signal. e = ProcClose (Some 0) signal"
  by (cases e)
    (auto simp: on_error_def on_exit_def on_close_def on_stdout_def on_stderr_def
      on_output_chunk_def Let_def split: option.splits sum.splits if_splits)

lemma success_needs_clean_close:
  "Success data \<in> set (snd (deliver out j es)) \<Longrightarrow> \<exists>signal. ProcClose (Some 0) signal \<in> set es"
proof (induction es arbitrary: j)
  case Nil
  then show ?case by simp
next
  case (Cons e es)
  from Cons.prems consider "Success data \<in> set (emitted (handle out j e))"
    | "Success data \<in> set (snd (deliver out (job_after (handle out j e)) es))"
    unfolding deliver_Cons by auto
  then show ?case
  proof cases
    case 1
    then show ?thesis using handle_success by fastforce
  next
    case 2
    with Cons.IH show ?thesis by fastforce
  qed
qed

lemma failure_on_exit_or_close:
  assumes "e \<in> set es" and "e = ProcExit code signal \<or> e = ProcClose code signal"
    and "code \<noteq> Some 0"
  shows "exit_failure code signal \<in> set (snd (deliver out j es))"
  using assms(1)
proof (induction es arbitrary: j)
  case Nil
  then show ?case by simp
next
  case (Cons x xs)
  show ?case
  proof (cases "x = e")
    case True
    with assms(2,3) have "exit_failure code signal \<in> set (emitted (handle out j x))"
      by (auto simp: on_exit_def on_close_def exit_failure_def)
    then show ?thesis unfolding deliver_Cons by simp
  next
    case False
    with Cons.prems have "e \<in> set xs" by simp
    from Cons.IH [OF this] show ?thesis unfolding deliver_Cons by simp
  qed
qed

lemma settlement_append:
  "settlement before = None \<Longrightarrow> settlement (before @ es) = settlement es"
  by (induction before rule: settlement.induct) simp_all

lemma abort_live_job:
  assumes "alive a" and "\<not> aborted a"
  shows "abort a = (a\<lparr>aborted := True\<rparr>, [ProcError ''AbortError''], [Kill (killSignal a)])"
  using assms by (simp add: abort_def)

lemma abort_current_live_job:
  assumes "job st = Some a" and "alive a" and "\<not> aborted a"
  shows "abort_current env st =
           (st\<lparr>job := Some (a\<lparr>aborted := True\<rparr>)\<rparr>, [abort_failure], [Kill (killSignal a)])"
  using assms
  by (simp add: abort_current_def abort_live_job on_error_def abort_failure_def)

text \<open>
  Claim C1, amended. Let \<open>A\<close> be the job the module holds in its variable \<open>job\<close>, running
  (constructed, its process alive, whatever its listeners have seen so far). Starting
  a new job and cancelling both abort \<open>A\<close> with the forced signal \<open>SIGKILL\<close>, and \<open>A\<close> emits
  \<open>failure\<close> at once, with the \<open>AbortError\<close>; a promise of \<open>A\<close> that is still pending is
  settled with this failure. Whatever the process reports afterwards, \<open>A\<close> emits one
  more \<open>failure\<close> for every \<open>exit\<close> and every \<open>close\<close> whose code is not 0 (it is \<open>null\<close> for
  a killed process), and it emits \<open>success\<close> only if the process still closes with code
  0: the listeners do not look at the abort.
\<close>

theorem current_job_aborted_with_failure:
  assumes "job st = Some a"
    and "a = fst (deliver (out_file env) (fst (new_FFmpegJob bin io args)) earlier)"
    and "alive a"
  shows "ffmpeg_begin env st
           = (st\<lparr>job := Some (a\<lparr>aborted := True\<rparr>)\<rparr>, [abort_failure], [Kill ''SIGKILL''])
         \<and> cancelJob env st = ffmpeg_begin env st
         \<and> superseded_events (ffmpeg env st options) = [abort_failure]
         \<and> abort_effects (ffmpeg env st options) = [Kill ''SIGKILL'']
         \<and> (settlement (snd (deliver (out_file env) (fst (new_FFmpegJob bin io args)) earlier)) = None
             \<longrightarrow> settlement (snd (deliver (out_file env) (fst (new_FFmpegJob bin io args)) earlier)
                    @ abort_failure # snd (deliver (out_file env) (a\<lparr>aborted := True\<rparr>) later))
                 = Some abort_failure)
         \<and> (\<forall>e \<in> set later. \<forall>code signal.
               (e = ProcExit code signal \<or> e = ProcClose code signal) \<and> code \<noteq> Some 0
               \<longrightarrow> exit_failure code signal
                     \<in> set (snd (deliver (out_file env) (a\<lparr>aborted := True\<rparr>) later)))
         \<and> (\<forall>data. Success data \<in> set (snd (deliver (out_file env) (a\<lparr>aborted := True\<rparr>) later))
               \<longrightarrow> (\<exists>signal. ProcClose (Some 0) signal \<in> set later))"
proof -
  from deliver_keeps_signal [of "out_file env" "fst (new_FFmpegJob bin io args)" earlier]
  have k: "killSignal a = ''SIGKILL''" and n: "\<not> aborted a"
    by (simp_all add: assms(2) new_FFmpegJob_def)
  from abort_current_live_job [OF assms(1,3) n, of env] k
  have b: "abort_current env st
             = (st\<lparr>job := Some (a\<lparr>aborted := True\<rparr>)\<rparr>, [abort_failure], [Kill ''SIGKILL''])"
    by simp
  have 1: "ffmpeg_begin env st
             = (st\<lparr>job := Some (a\<lparr>aborted := True\<rparr>)\<rparr>, [abort_failure], [Kill ''SIGKILL''])"
    and 2: "cancelJob env st = ffmpeg_begin env st"
    by (simp_all add: ffmpeg_begin_def cancelJob_def b)
  have 3: "superseded_events (ffmpeg env st options) = [abort_failure]"
    and 4: "abort_effects (ffmpeg env st options) = [Kill ''SIGKILL'']"
    by (simp_all add: ffmpeg_def 1)
  have 5: "settlement (before @ abort_failure # es) = Some abort_failure"
    if "settlement before = None" for before es
    using that by (simp add: settlement_append abort_failure_def)
  have 6: "exit_failure code signal \<in> set (snd (deliver (out_file env) (a\<lparr>aborted := True\<rparr>) later))"
    if "e \<in> set later" "e = ProcExit code signal \<or> e = ProcClose code signal" "code \<noteq> Some 0"
    for e code signal
    using that by (rule failure_on_exit_or_close)
  have 7: "\<exists>signal. ProcClose (Some 0) signal \<in> set later"
    if "Success data \<in> set (snd (deliver (out_file env) (a\<lparr>aborted := True\<rparr>) later))" for data
    using that by (rule success_needs_clean_close)
  from 1 2 3 4 5 6 7 show ?thesis
    by blast
qed

text \<open>
  Claim C1, as stated, fails: a second request made while the first job runs makes the
  first job emit a \<open>failure\<close> event.
\<close>

theorem superseded_job_counterexample:
  "superseded_events
     (ffmpeg sample_env
        (state_after (ffmpeg sample_env sample_native
           (sample_options \<lparr>width = 640, height = 480, rect_x = 0, rect_y = 0\<rparr>)))
        (sample_options \<lparr>width = 320, height = 240, rect_x = 0, rect_y = 0\<rparr>))
     = [JobFailure \<lparr>failure_type = UNKNOWN_ERROR, failure_error = NativeError ''AbortError''\<rparr>]"
  by code_simp

theorem current_job_aborted_with_failure_witness:
  "ffmpeg_begin sample_env
     (sample_native\<lparr>job := Some (fst (new_FFmpegJob ''/usr/bin/ffmpeg'' sample_io []))\<rparr>)
     = (sample_native\<lparr>job := Some ((fst (new_FFmpegJob ''/usr/bin/ffmpeg'' sample_io []))\<lparr>aborted := True\<rparr>)\<rparr>,
        [abort_failure], [Kill ''SIGKILL''])
   \<and> snd (deliver (out_file sample_env)
          ((fst (new_FFmpegJob ''/usr/bin/ffmpeg'' sample_io []))\<lparr>aborted := True\<rparr>)
          [ProcExit None (Some ''SIGKILL''), ProcClose None (Some ''SIGKILL'')])
       = [exit_failure None (Some ''SIGKILL''), exit_failure None (Some ''SIGKILL'')]
   \<and> settlement (abort_failure # snd (deliver (out_file sample_env)
          ((fst (new_FFmpegJob ''/usr/bin/ffmpeg'' sample_io []))\<lparr>aborted := True\<rparr>)
          [ProcExit None (Some ''SIGKILL''), ProcClose None (Some ''SIGKILL'')]))
       = Some abort_failure"
proof -
  let ?j = "fst (new_FFmpegJob ''/usr/bin/ffmpeg'' sample_io [])"
  let ?st = "sample_native\<lparr>job := Some ?j\<rparr>"
  let ?later = "[ProcExit None (Some ''SIGKILL''), ProcClose None (Some ''SIGKILL'')]"
  have j: "job ?st = Some ?j"
    by simp
  have e: "?j = fst (deliver (out_file sample_env) ?j [])"
    by simp
  have l: "alive ?j"
    by (simp add: new_FFmpegJob_def)
  have s: "settlement (snd (deliver (out_file sample_env) ?j [])) = None"
    by simp
  have d: "snd (deliver (out_file sample_env) (?j\<lparr>aborted := True\<rparr>) ?later)
             = [exit_failure None (Some ''SIGKILL''), exit_failure None (Some ''SIGKILL'')]"
    by (simp add: on_exit_def on_close_def exit_failure_def)
  from current_job_aborted_with_failure
    [OF j e l, of "sample_options \<lparr>width = 640, height = 480, rect_x = 0, rect_y = 0\<rparr>" ?later] s d show ?thesis
    by simp
qed

text \<open>
  Two more facts about an abort. The listeners do not look at the abort: a
  process that had already finished closes with code 0 after the abort, and the job
  then emits \<open>success\<close> after its \<open>failure\<close>. And the variable \<open>job\<close> is assigned only when
  \<open>FFmpegJob.for\<close> has settled: of two calls that overlap, neither finds a job to abort,
  both spawn, and the job of the first stays running, out of reach of every later
  \<open>ffmpeg\<close> and \<open>cancelJob\<close>, which abort the job of the second.
\<close>

lemma abort_then_clean_close:
  "snd (deliver (Some ''GIF89a'')
          (fst (abort (fst (new_FFmpegJob ''/usr/bin/ffmpeg'' sample_io []))))
          (fst (snd (abort (fst (new_FFmpegJob ''/usr/bin/ffmpeg'' sample_io []))))
             @ [ProcExit (Some 0) None, ProcClose (Some 0) None]))
     = [abort_failure, Success ''GIF89a'']"
  by code_simp

lemma overlapping_calls_leave_first_job_running:
  "(let o1 = sample_options \<lparr>width = 640, height = 480, rect_x = 0, rect_y = 0\<rparr>;
        o2 = sample_options \<lparr>width = 320, height = 240, rect_x = 0, rect_y = 0\<rparr>;
        s1 = fst (ffmpeg_begin sample_env sample_native);
        s2 = fst (ffmpeg_begin sample_env s1);
        r1 = ffmpeg_resume sample_env s2 o1;
        r2 = ffmpeg_resume sample_env (state_after r1) o2
    in case (started r1, started r2) of
         (Started first, Started second) \<Rightarrow>
           length (process_effects r1 @ process_effects r2) = 2
           \<and> alive first \<and> \<not> aborted first
           \<and> job (state_after r2) = Some second
           \<and> cancelJob sample_env (state_after r2)
               = ((state_after r2)\<lparr>job := Some (second\<lparr>aborted := True\<rparr>)\<rparr>,
                  [abort_failure], [Kill ''SIGKILL''])
       | _ \<Rightarrow> False)"
  by code_simp

subsection \<open>Progress\<close>

lemma length_string_of_nat:
  "n < 10 ^ k \<Longrightarrow> 0 < k \<Longrightarrow> length (string_of_nat n) \<le> k"
proof (induction n arbitrary: k rule: string_of_nat.induct)
  case (1 n)
  show ?case
  proof (cases "n < 10")
    case True
    with "1.prems" show ?thesis
      by (subst string_of_nat.simps) simp
  next
    case False
    from "1.prems" obtain j where k: "k = Suc j" by (cases k) auto
    with False "1.prems" have j: "0 < j" by (cases j) auto
    from "1.prems" k have "n div 10 < 10 ^ j"
      by (simp add: less_mult_imp_div_less mult.commute)
    with "1.IH" [OF False this j] False k show ?thesis
      by (subst string_of_nat.simps) simp
  qed
qed

lemma takeWhile_digits_stop:
  assumes "\<forall>c \<in> set ds. is_digit c" and "\<not> is_digit sep"
  shows "takeWhile is_digit (ds @ sep # rest) = ds"
    and "dropWhile is_digit (ds @ sep # rest) = sep # rest"
  using assms by (simp_all add: takeWhile_append2 dropWhile_append2)

lemma takeWhile_digits_all:
  assumes "\<forall>c \<in> set ds. is_digit c"
  shows "takeWhile is_digit ds = ds" and "dropWhile is_digit ds = []"
  using assms by (simp_all add: takeWhile_eq_all_conv)

lemma Number_whole: "Number (string_of_nat n) = Num (fl (of_nat n))"
proof -
  have tw: "takeWhile is_digit (string_of_nat n) = string_of_nat n"
    and dw: "dropWhile is_digit (string_of_nat n) = []"
    using string_of_nat_digits [of n] by (rule takeWhile_digits_all)+
  show ?thesis
    unfolding Number_def Let_def tw dw
    by (simp add: nat_of_digits_string_of_nat string_of_nat_nonempty)
qed

lemma Number_decimal:
  assumes "fs \<noteq> []" and "\<forall>c \<in> set fs. is_digit c"
  shows "Number (string_of_nat n @ ''.'' @ fs)
           = Num (fl (of_nat n + of_nat (nat_of_digits fs) / 10 ^ length fs))"
proof -
  have dot: "\<not> is_digit (CHR ''.'')"
    by (simp add: is_digit_def)
  have tw: "takeWhile is_digit (string_of_nat n @ CHR ''.'' # fs) = string_of_nat n"
    and dw: "dropWhile is_digit (string_of_nat n @ CHR ''.'' # fs) = CHR ''.'' # fs"
    using takeWhile_digits_stop [OF _ dot, of "string_of_nat n" fs] string_of_nat_digits [of n]
    by simp_all
  from assms show ?thesis
    unfolding Number_def Let_def append_Cons append_Nil tw dw
    by (simp add: string_of_nat_nonempty nat_of_digits_string_of_nat list_all_iff)
qed

lemma scale_split: "(a * d + b) * c = b * c + a * c * (d::int)"
  by (simp add: algebra_simps)

lemma fixedPrecision_parts:
  fixes u d :: int
  assumes "0 < d"
  shows "u * 100000 div d = (u div d) * 100000 + (u mod d) * 100000 div d"
proof -
  have "u * 100000 = (u mod d) * 100000 + (u div d) * 100000 * d"
    using scale_split [of "u div d" d "u mod d" 100000] by (simp only: div_mult_mod_eq)
  then have "u * 100000 div d = ((u mod d) * 100000 + (u div d) * 100000 * d) div d"
    by (simp only:)
  also have "\<dots> = (u div d) * 100000 + (u mod d) * 100000 div d"
    using assms by (subst div_mult_self1) simp_all
  finally show ?thesis .
qed

lemma fixedPrecision_Number:
  assumes "0 < d"
  shows "\<exists>s. fixedPrecisionBigIntDivide (int u) d 5 = Inr s
           \<and> Number s = Num (fl (of_int (int u * 100000 div d) / 100000))"
proof -
  define q r n where "q = int u div d" and "r = int u mod d" and "n = r * 100000 div d"
  from assms have q0: "0 \<le> q" and r0: "0 \<le> r" and rd: "r < d"
    by (simp_all add: q_def r_def pos_imp_zdiv_nonneg_iff)
  from r0 assms have n0: "0 \<le> n"
    by (simp add: n_def pos_imp_zdiv_nonneg_iff)
  have "n * d + r * 100000 mod d = r * 100000"
    unfolding n_def by simp
  moreover from assms have "0 \<le> r * 100000 mod d"
    by simp
  moreover from rd have "r * 100000 < 100000 * d"
    by simp
  ultimately have "n * d < 100000 * d"
    by linarith
  with assms have n5: "n < 100000"
    by (simp only: mult_less_cancel_right_pos)
  define dec where "dec = string_of_nat (nat n)"
  from n0 n5 have len: "length dec \<le> 5"
    unfolding dec_def by (intro length_string_of_nat) simp_all
  have dec_digits: "\<forall>c \<in> set dec. is_digit c" and dec_ne: "dec \<noteq> []"
    by (simp_all add: dec_def string_of_nat_digits string_of_nat_nonempty)
  have sd: "int u sdiv d = q" and sm: "int u smod d = r"
    using assms by (simp_all add: q_def r_def sdiv_nonneg smod_nonneg)
  have sn: "r * 100000 sdiv d = n"
    using assms r0 by (simp add: n_def sdiv_nonneg)
  have sq: "string_of_int q = string_of_nat (nat q)" and sdec: "string_of_int n = dec"
    using q0 n0 by (simp_all add: string_of_int_def dec_def)
  have total: "int u * 100000 div d = q * 100000 + n"
    unfolding q_def n_def r_def using assms by (rule fixedPrecision_parts)
  show ?thesis
  proof (cases "r = 0")
    case True
    then have "fixedPrecisionBigIntDivide (int u) d 5 = Inr (string_of_nat (nat q))"
      using assms by (simp add: fixedPrecisionBigIntDivide_def Let_def sd sm sq)
    moreover from True have "n = 0" by (simp add: n_def)
    then have "(of_int (int u * 100000 div d) / 100000 :: rat) = of_nat (nat q)"
      using q0 by (simp add: total)
    ultimately show ?thesis
      by (simp add: Number_whole)
  next
    case False
    define zeros where "zeros = replicate (5 - length dec) (CHR ''0'')"
    from len have rz: "repeat_zero (5 - int (length dec)) = Inr zeros"
      by (simp add: zeros_def nat_diff_distrib')
    have sh: "(10::int) ^ 5 = 100000"
      by simp
    have pre: "int 5 - int (length dec) = 5 - int (length dec)"
      by simp
    have fp: "fixedPrecisionBigIntDivide (int u) d 5
        = Inr (string_of_nat (nat q) @ ''.'' @ (zeros @ dec))"
      unfolding fixedPrecisionBigIntDivide_def Let_def sh sd sm sn sdec sq pre rz
      using assms False by simp
    have z: "is_digit (CHR ''0'')"
      by (simp add: is_digit_def)
    have fs: "zeros @ dec \<noteq> []" "\<forall>c \<in> set (zeros @ dec). is_digit c"
      using dec_ne dec_digits z by (auto simp: zeros_def)
    have l5: "length (zeros @ dec) = 5"
      using len by (simp add: zeros_def)
    have v: "nat_of_digits (zeros @ dec) = nat n"
      by (simp add: zeros_def dec_def nat_of_digits_zeros nat_of_digits_string_of_nat)
    have val: "(of_nat (nat q) + of_nat (nat_of_digits (zeros @ dec)) / 10 ^ length (zeros @ dec) :: rat)
        = of_int (int u * 100000 div d) / 100000"
      unfolding l5 v using q0 n0 by (simp add: total add_divide_distrib)
    from Number_decimal [OF fs, of "nat q"]
    have "Number (string_of_nat (nat q) @ ''.'' @ (zeros @ dec))
        = Num (fl (of_int (int u * 100000 div d) / 100000))"
      unfolding val .
    with fp show ?thesis
      by blast
  qed
qed

lemma fraction_bounds: "0 \<le> fraction d u \<and> fraction d u \<le> 1"
  by (simp add: fraction_def)

lemma fraction_mono:
  assumes "0 < d" and "u \<le> v"
  shows "fraction d u \<le> fraction d v"
proof -
  from assms have "int u * 100000 div d \<le> int v * 100000 div d"
    by (intro zdiv_mono1) simp_all
  then have "(of_int (int u * 100000 div d) / 100000 :: rat) \<le> of_int (int v * 100000 div d) / 100000"
    by (simp add: divide_right_mono)
  moreover from assms(1) have "(0::rat) \<le> of_int (int u * 100000 div d) / 100000"
    by (simp add: pos_imp_zdiv_nonneg_iff)
  ultimately have "fl (of_int (int u * 100000 div d) / 100000) \<le> fl (of_int (int v * 100000 div d) / 100000)"
    by (intro fl_mono_nonneg)
  then show ?thesis
    unfolding fraction_def by (intro min.mono max.mono) simp_all
qed

lemma on_stdout_unset:
  "foundMainLength this = None \<Longrightarrow>
     on_stdout this chunk = \<lparr>job_after = this, emitted = [], thrown = None\<rparr>"
  by (simp add: on_stdout_def)

lemma on_stdout_no_match:
  "match_out_time_us chunk = None \<Longrightarrow>
     on_stdout this chunk = \<lparr>job_after = this, emitted = [], thrown = None\<rparr>"
  by (simp add: on_stdout_def split: option.splits)

lemma on_stdout_zero:
  assumes "foundMainLength this = Some len" and "microseconds len = 0"
    and "match_out_time_us chunk = Some m"
  shows "on_stdout this chunk = \<lparr>job_after = this, emitted = [], thrown = Some RangeError\<rparr>"
  using assms by (simp add: on_stdout_def fixedPrecisionBigIntDivide_def)

lemma on_stdout_progress:
  assumes "foundMainLength this = Some len" and "0 < microseconds len"
    and "match_out_time_us chunk = Some m"
  shows "on_stdout this chunk =
           \<lparr>job_after = this\<lparr>job_progress := Num (fraction (microseconds len) (nat_of_digits m))\<rparr>,
              emitted = [Progress (Num (fraction (microseconds len) (nat_of_digits m)))],
              thrown = None\<rparr>"
proof -
  from fixedPrecision_Number [OF assms(2), of "nat_of_digits m"]
  obtain s where "fixedPrecisionBigIntDivide (int (nat_of_digits m)) (microseconds len) 5 = Inr s"
    and "Number s = Num (fl (of_int (int (nat_of_digits m) * 100000 div microseconds len) / 100000))"
    by blast
  with assms show ?thesis
    by (simp add: on_stdout_def fraction_def Let_def)
qed

lemma magnitude_at_pos: "0 < magnitude_at k"
proof (cases "0 \<le> k \<and> k < int (length MAGNITUDES)")
  case True
  then have "MAGNITUDES ! nat k \<in> set MAGNITUDES"
    by (intro nth_mem) linarith
  moreover have "\<forall>m \<in> set MAGNITUDES. 0 < m"
    by (simp add: MAGNITUDES_def)
  ultimately have "0 < MAGNITUDES ! nat k"
    by blast
  with True show ?thesis
    by (simp add: magnitude_at_def)
next
  case False
  then show ?thesis
    by (auto simp: magnitude_at_def)
qed

lemma parse_loop_nonneg: "0 \<le> us \<Longrightarrow> 0 \<le> parse_loop us spans j"
proof (induction spans arbitrary: us j)
  case Nil
  then show ?case by simp
next
  case (Cons s spans)
  from Cons.prems magnitude_at_pos [of "j - 1"]
  have "0 \<le> (us + int (nat_of_digits s)) * magnitude_at (j - 1)"
    by simp
  from Cons.IH [OF this] show ?case
    by simp
qed

lemma parse_nonneg: "parse t = Inr len \<Longrightarrow> 0 \<le> microseconds len"
proof -
  have "0 \<le> parse_loop 0 spans j" for spans j
    by (rule parse_loop_nonneg) simp
  then show "parse t = Inr len \<Longrightarrow> 0 \<le> microseconds len"
    unfolding parse_def by (auto simp del: parse_loop.simps split: list.splits)
qed

lemma progress_values_append:
  "progress_values (xs @ ys) = progress_values xs @ progress_values ys"
  by (induction xs rule: progress_values.induct) simp_all

lemma out_time_readings_append:
  "out_time_readings (xs @ ys) = out_time_readings xs @ out_time_readings ys"
  by (induction xs rule: out_time_readings.induct) (simp_all split: option.splits)

lemma handle_keeps_length:
  "foundMainLength j = Some len \<Longrightarrow> foundMainLength (job_after (handle out j e)) = Some len"
  by (cases e)
    (auto simp: on_error_def on_exit_def on_close_def on_stdout_def on_stderr_def
      on_output_chunk_def Let_def split: option.splits sum.splits)

lemma handle_sets_length:
  "foundMainLength j = None \<Longrightarrow> foundMainLength (job_after (handle out j e)) = Some len
     \<Longrightarrow> 0 \<le> microseconds len"
  by (cases e)
    (auto simp: on_error_def on_exit_def on_close_def on_stdout_def on_stderr_def
      on_output_chunk_def Let_def parse_nonneg split: option.splits sum.splits if_splits)

lemma handle_silent_before_length:
  "foundMainLength j = None \<Longrightarrow> progress_values (emitted (handle out j e)) = []"
  by (cases e)
    (auto simp: on_error_def on_exit_def on_close_def on_stdout_def on_stderr_def
      on_output_chunk_def Let_def split: option.splits sum.splits)

lemma handle_progress_with_length:
  assumes "foundMainLength j = Some len" and "0 \<le> microseconds len"
  shows "progress_values (emitted (handle out j e))
           = (if microseconds len = 0 then []
              else map (\<lambda>u. Num (fraction (microseconds len) u)) (out_time_readings [e]))"
proof (cases e)
  case (Stdout chunk)
  show ?thesis
  proof (cases "match_out_time_us chunk")
    case None
    with Stdout show ?thesis
      by (simp add: on_stdout_no_match)
  next
    case (Some m)
    show ?thesis
    proof (cases "microseconds len = 0")
      case True
      with Stdout Some assms show ?thesis
        by (simp add: on_stdout_zero)
    next
      case False
      with assms have "0 < microseconds len"
        by simp
      with Stdout Some assms False show ?thesis
        by (simp add: on_stdout_progress)
    qed
  qed
qed (auto simp: on_error_def on_exit_def on_close_def on_stderr_def on_output_chunk_def Let_def
      split: option.splits sum.splits)

lemma deliver_progress_with_length:
  assumes "0 \<le> microseconds len"
  shows "foundMainLength j = Some len \<Longrightarrow>
    progress_values (snd (deliver out j es))
      = (if microseconds len = 0 then []
         else map (\<lambda>u. Num (fraction (microseconds len) u)) (out_time_readings es))"
proof (induction es arbitrary: j)
  case Nil
  then show ?case by simp
next
  case (Cons e es)
  note h = handle_progress_with_length [OF Cons.prems assms, of out e]
  note k = Cons.IH [OF handle_keeps_length [OF Cons.prems, of out e]]
  have r: "out_time_readings (e # es) = out_time_readings [e] @ out_time_readings es"
    using out_time_readings_append [of "[e]" es] by simp
  show ?case
    unfolding deliver_Cons progress_values_append h k r by simp
qed

lemma deliver_progress:
  assumes "\<And>len. foundMainLength j = Some len \<Longrightarrow> 0 \<le> microseconds len"
  shows "\<exists>d before after. 0 < d \<and> es = before @ after
           \<and> progress_values (snd (deliver out j es))
               = map (\<lambda>u. Num (fraction d u)) (out_time_readings after)"
  using assms
proof (induction es arbitrary: j)
  case Nil
  have "(0::int) < 1 \<and> ([]::process_event list) = [] @ []
      \<and> progress_values (snd (deliver out j [])) = map (\<lambda>u. Num (fraction 1 u)) (out_time_readings [])"
    by simp
  then show ?case by blast
next
  case (Cons e es)
  show ?case
  proof (cases "foundMainLength j")
    case (Some len)
    from Cons.prems [OF Some] have n: "0 \<le> microseconds len" .
    note p = deliver_progress_with_length [OF n Some, of out "e # es"]
    show ?thesis
    proof (cases "microseconds len = 0")
      case True
      with p have "(0::int) < 1 \<and> e # es = (e # es) @ []
          \<and> progress_values (snd (deliver out j (e # es)))
              = map (\<lambda>u. Num (fraction 1 u)) (out_time_readings [])"
        by simp
      then show ?thesis by blast
    next
      case False
      with p n have "0 < microseconds len \<and> e # es = [] @ (e # es)
          \<and> progress_values (snd (deliver out j (e # es)))
              = map (\<lambda>u. Num (fraction (microseconds len) u)) (out_time_readings (e # es))"
        by simp
      then show ?thesis by blast
    qed
  next
    case None
    have "\<And>len. foundMainLength (job_after (handle out j e)) = Some len \<Longrightarrow> 0 \<le> microseconds len"
      using handle_sets_length [OF None] .
    from Cons.IH [OF this] obtain d before after where d: "0 < d" and s: "es = before @ after"
      and v: "progress_values (snd (deliver out (job_after (handle out j e)) es))
               = map (\<lambda>u. Num (fraction d u)) (out_time_readings after)"
      by blast
    from s have "e # es = (e # before) @ after"
      by simp
    moreover have "progress_values (snd (deliver out j (e # es)))
               = map (\<lambda>u. Num (fraction d u)) (out_time_readings after)"
      unfolding deliver_Cons progress_values_append handle_silent_before_length [OF None] v by simp
    ultimately show ?thesis
      using d by blast
  qed
qed

lemma fractions_in_unit: "list_all in_unit (map (\<lambda>u. Num (fraction d u)) us)"
  by (simp add: list_all_iff fraction_bounds)

lemma fractions_sorted:
  assumes "0 < d" and "sorted us"
  shows "sorted_wrt js_le (map (\<lambda>u. Num (fraction d u)) us)"
  using assms(2)
  by (induction us) (simp_all add: fraction_mono [OF assms(1)])

text \<open>
  Claim C4, amended. Within one job, for every sequence of events of the process, every
  emitted progress fraction is a number in \<open>[0, 1]\<close>, and the emitted fractions are in
  non-decreasing order whenever the elapsed microseconds read from the successive
  \<open>stdout\<close> chunks (the first \<open>out_time_us=\<close> number of each chunk) are in non-decreasing
  order. The listener does not compare a reading with the one before it.
\<close>

theorem progress_in_unit_and_ordered_as_read:
  "list_all in_unit (progress_values (snd (deliver out (fst (new_FFmpegJob bin io args)) events)))
   \<and> (sorted (out_time_readings events)
        \<longrightarrow> sorted_wrt js_le
              (progress_values (snd (deliver out (fst (new_FFmpegJob bin io args)) events))))"
proof -
  have "\<And>len. foundMainLength (fst (new_FFmpegJob bin io args)) = Some len \<Longrightarrow> 0 \<le> microseconds len"
    by (simp add: new_FFmpegJob_def)
  from deliver_progress [OF this, where es = events and out = out]
  obtain d before after where d: "0 < d" and s: "events = before @ after"
    and v: "progress_values (snd (deliver out (fst (new_FFmpegJob bin io args)) events))
             = map (\<lambda>u. Num (fraction d u)) (out_time_readings after)"
    by blast
  have "sorted (out_time_readings after)" if "sorted (out_time_readings events)"
    using that unfolding s out_time_readings_append by (simp add: sorted_append)
  with d show ?thesis
    unfolding v by (simp add: fractions_in_unit fractions_sorted)
qed

lemma duration_read:
  "foundMainLength (job_after (handle None (fst (new_FFmpegJob ''/usr/bin/ffmpeg'' sample_io []))
      (Stderr ''  Duration: 00:00:01.00, start: 0.000000''))) = Some \<lparr>microseconds = 1000000\<rparr>"
  "emitted (handle None (fst (new_FFmpegJob ''/usr/bin/ffmpeg'' sample_io []))
      (Stderr ''  Duration: 00:00:01.00, start: 0.000000'')) = []"
  by code_simp+

lemma progress_after_duration:
  "progress_values (snd (deliver None (fst (new_FFmpegJob ''/usr/bin/ffmpeg'' sample_io []))
      (Stderr ''  Duration: 00:00:01.00, start: 0.000000'' # es)))
     = map (\<lambda>u. Num (fraction 1000000 u)) (out_time_readings es)"
  unfolding deliver_Cons progress_values_append duration_read(2)
  using deliver_progress_with_length [OF _ duration_read(1), of None es]
  by simp

lemma readings_skip_stderr: "out_time_readings (Stderr chunk # es) = out_time_readings es"
  by simp

lemma readings_cut:
  "out_time_readings [Stdout ''out_time_us=500000'', Stdout ''out_time_us=6'', Stdout ''00000'']
     = [500000, 6]"
proof -
  have "match_out_time_us ''out_time_us=500000'' = Some ''500000''"
    and "match_out_time_us ''out_time_us=6'' = Some ''6''"
    and "match_out_time_us ''00000'' = None"
    by code_simp+
  then show ?thesis
    by (simp add: nat_of_digits_def digit_val_def)
qed

lemma readings_whole:
  "out_time_readings [Stdout ''out_time_us=250000'', Stdout ''out_time_us=500000'']
     = [250000, 500000]"
proof -
  have "match_out_time_us ''out_time_us=250000'' = Some ''250000''"
    and "match_out_time_us ''out_time_us=500000'' = Some ''500000''"
    by code_simp+
  then show ?thesis
    by (simp add: nat_of_digits_def digit_val_def)
qed

lemma fl_samples: "fl 0 = 0" "fl (1 / 4) = 1 / 4" "fl (1 / 2) = 1 / 2"
  by code_simp+

lemma fraction_samples:
  "fraction 1000000 6 = 0" "fraction 1000000 250000 = 1 / 4" "fraction 1000000 500000 = 1 / 2"
  by (simp_all add: fraction_def fl_samples)

text \<open>
  Claim C4, as stated, fails: the encoder reports 0.5 s and then 0.6 s of a second, the
  second report is cut after its first digit by the end of a chunk, and the fraction
  falls from 0.5 to 0.
\<close>

theorem progress_decreases_counterexample:
  "progress_values (snd (deliver None (fst (new_FFmpegJob ''/usr/bin/ffmpeg'' sample_io []))
      [Stderr ''  Duration: 00:00:01.00, start: 0.000000'',
       Stdout ''out_time_us=500000'',
       Stdout ''out_time_us=6'',
       Stdout ''00000''])) = [Num (1 / 2), Num 0]"
  unfolding progress_after_duration readings_cut by (simp add: fraction_samples)

theorem progress_in_unit_and_ordered_as_read_witness:
  "sorted (out_time_readings
      [Stderr ''  Duration: 00:00:01.00, start: 0.000000'',
       Stdout ''out_time_us=250000'',
       Stdout ''out_time_us=500000''])
   \<and> sorted_wrt js_le (progress_values (snd (deliver None (fst (new_FFmpegJob ''/usr/bin/ffmpeg'' sample_io []))
      [Stderr ''  Duration: 00:00:01.00, start: 0.000000'',
       Stdout ''out_time_us=250000'',
       Stdout ''out_time_us=500000''])))
   \<and> progress_values (snd (deliver None (fst (new_FFmpegJob ''/usr/bin/ffmpeg'' sample_io []))
      [Stderr ''  Duration: 00:00:01.00, start: 0.000000'',
       Stdout ''out_time_us=250000'',
       Stdout ''out_time_us=500000''])) = [Num (1 / 4), Num (1 / 2)]"
proof -
  let ?events = "[Stderr ''  Duration: 00:00:01.00, start: 0.000000'',
       Stdout ''out_time_us=250000'',
       Stdout ''out_time_us=500000'']"
  have "out_time_readings ?events
      = out_time_readings [Stdout ''out_time_us=250000'', Stdout ''out_time_us=500000'']"
    by (rule readings_skip_stderr)
  then have r: "sorted (out_time_readings ?events)"
    unfolding readings_whole by simp
  have p: "progress_values (snd (deliver None (fst (new_FFmpegJob ''/usr/bin/ffmpeg'' sample_io [])) ?events))
      = [Num (1 / 4), Num (1 / 2)]"
    unfolding progress_after_duration readings_whole by (simp add: fraction_samples)
  from progress_in_unit_and_ordered_as_read
    [of None "''/usr/bin/ffmpeg''" sample_io "[]" ?events] r p
  show ?thesis
    by (simp only: simp_thms)
qed

end
